theory Spec2Isabelle
  imports Main
begin

section \<open>The persisted data model (prisma/migrations/20250923235107\_init/migration.sql)\<close>

text \<open>
  Row identifiers are the \<^verbatim>\<open>TEXT\<close> primary keys of the tables. No statement of the
  sources ever supplies one: the ORM generates it on insert. The generator is declared in
  the Prisma schema, which is not among the sources, so identifiers are drawn from a supply
  carried by the store (\<open>idSupply\<close> below) and the primary-key index is checked on every
  insert. Timestamps are clock readings (milliseconds); dates are day numbers.
\<close>

type_synonym ident = nat
type_synonym timestamp = nat

text \<open>\<^verbatim>\<open>CREATE TYPE "CategoryType" AS ENUM ('INCOME', 'EXPENSE', 'TRANSFER')\<close>\<close>

datatype CategoryType = INCOME | EXPENSE | TRANSFER

text \<open>Table \<^verbatim>\<open>users\<close>: a nullable column is an \<open>option\<close>.\<close>

record user =
  usr_id :: ident
  usr_auth0Id :: string
  usr_email :: string
  usr_firstName :: "string option"
  usr_lastName :: "string option"
  usr_timezone :: string
  usr_locale :: string
  usr_createdAt :: timestamp
  usr_updatedAt :: timestamp
  usr_deletedAt :: "timestamp option"

text \<open>Table \<^verbatim>\<open>categories\<close>.\<close>

record category =
  cat_id :: ident
  cat_name :: string
  cat_description :: "string option"
  cat_color :: "string option"
  cat_icon :: "string option"
  cat_type :: CategoryType
  cat_userId :: ident
  cat_parentId :: "ident option"
  cat_isActive :: bool
  cat_createdAt :: timestamp
  cat_updatedAt :: timestamp
  cat_deletedAt :: "timestamp option"

text \<open>Table \<^verbatim>\<open>currencies\<close>.\<close>

record currency =
  cur_id :: ident
  cur_code :: string
  cur_name :: string
  cur_symbol :: string
  cur_createdAt :: timestamp
  cur_updatedAt :: timestamp
  cur_deletedAt :: "timestamp option"

text \<open>
  Table \<^verbatim>\<open>exchange_rates\<close>. The column \<^verbatim>\<open>rate DECIMAL(18,8)\<close> is a fixed-point
  number with eight decimals: \<open>xr_rate\<close> is the value in units of \<open>10\<^sup>-\<^sup>8\<close>, so the
  rate 0.92 is \<open>92000000\<close>.
\<close>

record exchange_rate =
  xr_id :: ident
  xr_fromCurrencyId :: ident
  xr_toCurrencyId :: ident
  xr_rate :: int
  xr_date :: nat
  xr_createdAt :: timestamp
  xr_updatedAt :: timestamp
  xr_deletedAt :: "timestamp option"

section \<open>Errors, the log and the store\<close>

text \<open>
  Every exception of the sources is a value. \<open>StoreFailure\<close> is a failure of the
  database itself (unreachable, connection lost); the constraint errors are what the
  indexes, foreign keys and column types of the migration raise; \<open>UnauthorizedException\<close> is thrown
  by the JWT strategy.
\<close>

datatype error =
    StoreFailure string
  | UniqueConstraintFailed string
  | ForeignKeyConstraintFailed string
  | NumericFieldOverflow
  | InvalidTextValue
  | RecordNotFound
  | UnauthorizedException string

text \<open>\<^verbatim>\<open>error.message\<close>\<close>

fun message :: "error \<Rightarrow> string" where
  "message (StoreFailure m) = m"
| "message (UniqueConstraintFailed c) = ''Unique constraint failed on '' @ c"
| "message (ForeignKeyConstraintFailed c) = ''Foreign key constraint failed on '' @ c"
| "message NumericFieldOverflow = ''numeric field overflow''"
| "message InvalidTextValue = ''invalid byte sequence for encoding UTF8: 0x00''"
| "message RecordNotFound = ''Record to update not found.''"
| "message (UnauthorizedException m) = m"

text \<open>
  The four logging calls of \<^verbatim>\<open>UserSyncService\<close>, one constructor per call site,
  carrying the values its template string interpolates (and the error passed along).
\<close>

datatype log_entry =
    CreatedNewUser string
  | CreatedDefaultCategories ident
  | FailedDefaultCategories ident error
  | FailedSyncUser string error

text \<open>
  The store the services run against. \<open>faults\<close> is the schedule of the database's own
  failures: every call of the ORM takes the head of the list, and \<open>Some m\<close> makes that
  call throw with message \<open>m\<close>; an empty schedule is a database that stays up.
\<close>

record world =
  users :: "user list"
  categories :: "category list"
  currencies :: "currency list"
  exchangeRates :: "exchange_rate list"
  idSupply :: nat
  faults :: "string option list"
  logs :: "log_entry list"

text \<open>
  An \<^verbatim>\<open>async\<close> function is a state transformer that either throws or returns;
  \<open>await\<close> is \<open>bind\<close>, \<^verbatim>\<open>try { m } catch (error) { h }\<close> is \<open>catch m h\<close>.
\<close>

type_synonym 'a prog = "world \<Rightarrow> (error + 'a) \<times> world"

definition ret :: "'a \<Rightarrow> 'a prog" where
  "ret x = (\<lambda>w. (Inr x, w))"

definition throw :: "error \<Rightarrow> 'a prog" where
  "throw e = (\<lambda>w. (Inl e, w))"

definition bind :: "'a prog \<Rightarrow> ('a \<Rightarrow> 'b prog) \<Rightarrow> 'b prog" where
  "bind m f = (\<lambda>w. case m w of (Inl e, w') \<Rightarrow> (Inl e, w') | (Inr x, w') \<Rightarrow> f x w')"

definition catch :: "'a prog \<Rightarrow> (error \<Rightarrow> 'a prog) \<Rightarrow> 'a prog" where
  "catch m h = (\<lambda>w. case m w of (Inl e, w') \<Rightarrow> h e w' | (Inr x, w') \<Rightarrow> (Inr x, w'))"

definition logger :: "log_entry \<Rightarrow> unit prog" where
  "logger l = (\<lambda>w. (Inr (), w\<lparr>logs := logs w @ [l]\<rparr>))"

definition store_call :: "unit prog" where
  "store_call = (\<lambda>w. case faults w of
       [] \<Rightarrow> (Inr (), w)
     | None # fs \<Rightarrow> (Inr (), w\<lparr>faults := fs\<rparr>)
     | Some m # fs \<Rightarrow> (Inl (StoreFailure m), w\<lparr>faults := fs\<rparr>))"

definition fresh_id :: "ident prog" where
  "fresh_id = (\<lambda>w. (Inr (idSupply w), w\<lparr>idSupply := Suc (idSupply w)\<rparr>))"

section \<open>The ORM calls the services make\<close>

text \<open>
  A \<open>string\<close> is the UTF-8 encoding of the JavaScript string. The database stores every
  such string in a \<^verbatim>\<open>TEXT\<close> column, and takes it as a parameter of a statement, unless
  it contains the character U+0000: a statement with such a value fails.
\<close>

definition pg_text :: "string \<Rightarrow> bool" where
  "pg_text s = (CHR 0x00 \<notin> set s)"

definition pg_text_opt :: "string option \<Rightarrow> bool" where
  "pg_text_opt v = (case v of None \<Rightarrow> True | Some s \<Rightarrow> pg_text s)"



text \<open>\<^verbatim>\<open>prisma.user.findUnique({ where: { auth0Id } })\<close>\<close>

definition user_findUnique :: "string \<Rightarrow> user option prog" where
  "user_findUnique auth0Id =
     bind store_call (\<lambda>_ w.
       if \<not> pg_text auth0Id then (Inl InvalidTextValue, w)
       else (Inr (find (\<lambda>u. usr_auth0Id u = auth0Id) (users w)), w))"

text \<open>
  \<^verbatim>\<open>prisma.user.create({ data })\<close> with the six fields the service supplies. The
  values must be text the database takes, and the insert
  is checked against \<^verbatim>\<open>users_pkey\<close>, \<^verbatim>\<open>users_auth0_id_key\<close> and
  \<^verbatim>\<open>users_email_key\<close>; \<^verbatim>\<open>created_at\<close> and \<^verbatim>\<open>updated_at\<close> are
  filled with the time of the write (\<^verbatim>\<open>updated_at\<close> is \<^verbatim>\<open>NOT NULL\<close> without a
  default and no call of the sources supplies it: the ORM maintains it on every write).
\<close>

record user_create_input =
  uc_auth0Id :: string
  uc_email :: string
  uc_firstName :: "string option"
  uc_lastName :: "string option"
  uc_timezone :: string
  uc_locale :: string

definition user_create :: "timestamp \<Rightarrow> user_create_input \<Rightarrow> user prog" where
  "user_create now d =
     bind store_call (\<lambda>_. bind fresh_id (\<lambda>i w.
       if \<not> (pg_text (uc_auth0Id d) \<and> pg_text (uc_email d) \<and> pg_text_opt (uc_firstName d) \<and>
               pg_text_opt (uc_lastName d) \<and> pg_text (uc_timezone d) \<and> pg_text (uc_locale d))
         then (Inl InvalidTextValue, w)
       else if \<exists>u \<in> set (users w). usr_id u = i
         then (Inl (UniqueConstraintFailed ''users_pkey''), w)
       else if \<exists>u \<in> set (users w). usr_auth0Id u = uc_auth0Id d
         then (Inl (UniqueConstraintFailed ''users_auth0_id_key''), w)
       else if \<exists>u \<in> set (users w). usr_email u = uc_email d
         then (Inl (UniqueConstraintFailed ''users_email_key''), w)
       else
         (let row = \<lparr>usr_id = i, usr_auth0Id = uc_auth0Id d, usr_email = uc_email d,
                     usr_firstName = uc_firstName d, usr_lastName = uc_lastName d,
                     usr_timezone = uc_timezone d, usr_locale = uc_locale d,
                     usr_createdAt = now, usr_updatedAt = now, usr_deletedAt = None\<rparr>
          in (Inr row, w\<lparr>users := users w @ [row]\<rparr>))))"

text \<open>
  \<^verbatim>\<open>prisma.user.update({ where: { id }, data })\<close> with the five fields the service
  supplies: the row with that id gets the five values and a new \<^verbatim>\<open>updated_at\<close>
  unless a value is not text the database takes, or the new email is another row's
  (\<^verbatim>\<open>users_email_key\<close>).
\<close>

record user_update_input =
  uu_email :: string
  uu_firstName :: "string option"
  uu_lastName :: "string option"
  uu_timezone :: string
  uu_locale :: string

definition apply_user_update :: "timestamp \<Rightarrow> user_update_input \<Rightarrow> user \<Rightarrow> user" where
  "apply_user_update now d u =
     u\<lparr>usr_email := uu_email d, usr_firstName := uu_firstName d, usr_lastName := uu_lastName d,
       usr_timezone := uu_timezone d, usr_locale := uu_locale d, usr_updatedAt := now\<rparr>"

definition user_update :: "timestamp \<Rightarrow> ident \<Rightarrow> user_update_input \<Rightarrow> user prog" where
  "user_update now i d =
     bind store_call (\<lambda>_ w.
       if \<not> (pg_text (uu_email d) \<and> pg_text_opt (uu_firstName d) \<and>
               pg_text_opt (uu_lastName d) \<and> pg_text (uu_timezone d) \<and> pg_text (uu_locale d))
         then (Inl InvalidTextValue, w)
       else case find (\<lambda>u. usr_id u = i) (users w) of
         None \<Rightarrow> (Inl RecordNotFound, w)
       | Some u \<Rightarrow>
           if \<exists>v \<in> set (users w). usr_id v \<noteq> i \<and> usr_email v = uu_email d
             then (Inl (UniqueConstraintFailed ''users_email_key''), w)
           else (Inr (apply_user_update now d u),
                 w\<lparr>users := map (\<lambda>v. if usr_id v = i then apply_user_update now d v else v)
                                 (users w)\<rparr>))"

text \<open>
  \<^verbatim>\<open>prisma.category.createMany({ data, skipDuplicates: true })\<close>: one
  \<^verbatim>\<open>INSERT ... ON CONFLICT DO NOTHING\<close>. A row is skipped when it collides with a row
  already there (or inserted earlier by the same statement) on a unique index:
  \<^verbatim>\<open>categories_pkey\<close> or \<^verbatim>\<open>categories_user_id_name_parent_id_key\<close>. The index is
  on \<^verbatim>\<open>(user_id, name, parent_id)\<close> and \<^verbatim>\<open>parent_id\<close> is nullable: two index
  entries collide only when every column is non-null and equal, so a row whose
  \<^verbatim>\<open>parent_id\<close> is \<^verbatim>\<open>NULL\<close> never collides on it. The service supplies no
  \<^verbatim>\<open>parentId\<close>, so the rows it inserts are top-level ones. When the owner of
  an inserted row does not resolve (\<^verbatim>\<open>categories_user_id_fkey\<close>, checked at the end
  of the statement), or a value is not text the database takes, the whole statement fails
  and inserts nothing.
\<close>

record category_input =
  ci_name :: string
  ci_type :: CategoryType
  ci_color :: "string option"
  ci_icon :: "string option"
  ci_userId :: ident
  ci_description :: "string option"

definition category_row :: "timestamp \<Rightarrow> ident \<Rightarrow> category_input \<Rightarrow> category" where
  "category_row now i d =
     \<lparr>cat_id = i, cat_name = ci_name d, cat_description = ci_description d,
      cat_color = ci_color d, cat_icon = ci_icon d, cat_type = ci_type d,
      cat_userId = ci_userId d, cat_parentId = None, cat_isActive = True,
      cat_createdAt = now, cat_updatedAt = now, cat_deletedAt = None\<rparr>"

definition category_input_text :: "category_input \<Rightarrow> bool" where
  "category_input_text d =
     (pg_text (ci_name d) \<and> pg_text_opt (ci_color d) \<and> pg_text_opt (ci_icon d) \<and>
      pg_text_opt (ci_description d))"

definition category_conflict :: "category \<Rightarrow> category list \<Rightarrow> bool" where
  "category_conflict row rows =
     (\<exists>r \<in> set rows. cat_id r = cat_id row \<or>
        (cat_userId r = cat_userId row \<and> cat_name r = cat_name row \<and>
         cat_parentId r \<noteq> None \<and> cat_parentId r = cat_parentId row))"

fun insert_skipDuplicates ::
  "timestamp \<Rightarrow> category_input list \<Rightarrow> category list \<Rightarrow> ident \<Rightarrow> category list \<times> ident" where
  "insert_skipDuplicates now [] rows i = (rows, i)"
| "insert_skipDuplicates now (d # ds) rows i =
     (if category_conflict (category_row now i d) rows
      then insert_skipDuplicates now ds rows (Suc i)
      else insert_skipDuplicates now ds (rows @ [category_row now i d]) (Suc i))"

definition category_createMany_skipDuplicates ::
  "timestamp \<Rightarrow> category_input list \<Rightarrow> nat prog" where
  "category_createMany_skipDuplicates now ds =
     bind store_call (\<lambda>_ w.
       if \<exists>d \<in> set ds. \<not> category_input_text d then (Inl InvalidTextValue, w)
       else case insert_skipDuplicates now ds (categories w) (idSupply w) of
         (rows, i) \<Rightarrow>
           if \<exists>c \<in> set (drop (length (categories w)) rows).
                \<not> (\<exists>u \<in> set (users w). usr_id u = cat_userId c)
             then (Inl (ForeignKeyConstraintFailed ''categories_user_id_fkey''), w)
           else (Inr (length rows - length (categories w)),
                 w\<lparr>categories := rows, idSupply := i\<rparr>))"

text \<open>\<^verbatim>\<open>prisma.user.count()\<close> and \<^verbatim>\<open>prisma.currency.count()\<close>\<close>

definition user_count :: "nat prog" where
  "user_count = bind store_call (\<lambda>_ w. (Inr (length (users w)), w))"

definition currency_count :: "nat prog" where
  "currency_count = bind store_call (\<lambda>_ w. (Inr (length (currencies w)), w))"

section \<open>JavaScript values of the token payload\<close>

text \<open>
  The payload is typed \<^verbatim>\<open>any\<close>. The model gives it the shape of the identity
  provider's token: each claim the code reads is a string when present, the roles and
  permissions are lists of strings. An absent claim (\<^verbatim>\<open>undefined\<close>, \<^verbatim>\<open>null\<close>)
  is \<open>None\<close>.
\<close>

record payload =
  claim_sub :: "string option"
  claim_email :: "string option"
  claim_given_name :: "string option"
  claim_family_name :: "string option"
  claim_name :: "string option"
  claim_zoneinfo :: "string option"
  claim_locale :: "string option"
  claim_roles :: "string list option"
  claim_permissions :: "string list option"
  claim_scope :: "string option"

text \<open>A string is truthy unless it is empty; \<^verbatim>\<open>undefined\<close> and \<^verbatim>\<open>null\<close> are falsy.\<close>

fun truthy :: "string option \<Rightarrow> bool" where
  "truthy None = False"
| "truthy (Some s) = (s \<noteq> [])"

text \<open>\<^verbatim>\<open>a || b\<close>: the left operand when it is truthy, the right one otherwise.\<close>

definition js_or :: "string option \<Rightarrow> string option \<Rightarrow> string option" where
  "js_or a b = (if truthy a then a else b)"

text \<open>\<^verbatim>\<open>a || b\<close> where \<open>b\<close> is a string: the result is a string.\<close>

definition js_or_str :: "string option \<Rightarrow> string \<Rightarrow> string" where
  "js_or_str a b = (case a of None \<Rightarrow> b | Some s \<Rightarrow> if s \<noteq> [] then s else b)"

text \<open>\<^verbatim>\<open>a || []\<close> on a list claim: an array is always truthy.\<close>

definition js_or_list :: "'a list option \<Rightarrow> 'a list \<Rightarrow> 'a list" where
  "js_or_list a b = (case a of None \<Rightarrow> b | Some xs \<Rightarrow> xs)"

text \<open>
  \<^verbatim>\<open>s.split(c)\<close> for a one-character separator: every occurrence of the separator
  ends a piece, so the result has one piece more than there are separators.
\<close>

fun split :: "char \<Rightarrow> string \<Rightarrow> string list" where
  "split c [] = [[]]"
| "split c (x # xs) =
     (if x = c then [] # split c xs
      else (case split c xs of [] \<Rightarrow> [[x]] | p # ps \<Rightarrow> (x # p) # ps))"

text \<open>\<^verbatim>\<open>pieces.join(sep)\<close>\<close>

fun join :: "string \<Rightarrow> string list \<Rightarrow> string" where
  "join sep [] = []"
| "join sep [p] = p"
| "join sep (p # q # ps) = p @ sep @ join sep (q # ps)"

text \<open>\<^verbatim>\<open>tokenPayload.name?.split(' ')[0]\<close>\<close>

definition name_first :: "string option \<Rightarrow> string option" where
  "name_first n =
     (case n of None \<Rightarrow> None
      | Some s \<Rightarrow> (case split CHR '' '' s of [] \<Rightarrow> None | p # ps \<Rightarrow> Some p))"

text \<open>\<^verbatim>\<open>tokenPayload.name?.split(' ').slice(1).join(' ')\<close>\<close>

definition name_rest :: "string option \<Rightarrow> string option" where
  "name_rest n =
     (case n of None \<Rightarrow> None
      | Some s \<Rightarrow> Some (join '' '' (drop 1 (split CHR '' '' s))))"

section \<open>UserSyncService (user-sync.service.ts)\<close>

text \<open>The literal \<^verbatim>\<open>defaultCategories\<close> of \<^verbatim>\<open>createDefaultCategories\<close>.\<close>

record default_category =
  dc_name :: string
  dc_type :: CategoryType
  dc_color :: string
  dc_icon :: string

definition defaultCategories :: "default_category list" where
  "defaultCategories =
    [\<lparr>dc_name = ''Salary'', dc_type = INCOME, dc_color = ''#4CAF50'', dc_icon = ''wallet''\<rparr>,
     \<lparr>dc_name = ''Freelance'', dc_type = INCOME, dc_color = ''#8BC34A'', dc_icon = ''briefcase''\<rparr>,
     \<lparr>dc_name = ''Investments'', dc_type = INCOME, dc_color = ''#CDDC39'', dc_icon = ''trending-up''\<rparr>,
     \<lparr>dc_name = ''Other Income'', dc_type = INCOME, dc_color = ''#FFC107'', dc_icon = ''plus-circle''\<rparr>,
     \<lparr>dc_name = ''Food & Dining'', dc_type = EXPENSE, dc_color = ''#FF5722'', dc_icon = ''utensils''\<rparr>,
     \<lparr>dc_name = ''Transportation'', dc_type = EXPENSE, dc_color = ''#795548'', dc_icon = ''car''\<rparr>,
     \<lparr>dc_name = ''Shopping'', dc_type = EXPENSE, dc_color = ''#E91E63'', dc_icon = ''shopping-cart''\<rparr>,
     \<lparr>dc_name = ''Entertainment'', dc_type = EXPENSE, dc_color = ''#9C27B0'', dc_icon = ''music''\<rparr>,
     \<lparr>dc_name = ''Bills & Utilities'', dc_type = EXPENSE, dc_color = ''#673AB7'', dc_icon = ''receipt''\<rparr>,
     \<lparr>dc_name = ''Healthcare'', dc_type = EXPENSE, dc_color = ''#3F51B5'', dc_icon = ''heart''\<rparr>,
     \<lparr>dc_name = ''Education'', dc_type = EXPENSE, dc_color = ''#2196F3'', dc_icon = ''book''\<rparr>,
     \<lparr>dc_name = ''Home'', dc_type = EXPENSE, dc_color = ''#00BCD4'', dc_icon = ''home''\<rparr>,
     \<lparr>dc_name = ''Personal'', dc_type = EXPENSE, dc_color = ''#009688'', dc_icon = ''user''\<rparr>,
     \<lparr>dc_name = ''Other Expenses'', dc_type = EXPENSE, dc_color = ''#607D8B'', dc_icon = ''ellipsis''\<rparr>,
     \<lparr>dc_name = ''Transfer'', dc_type = TRANSFER, dc_color = ''#9E9E9E'', dc_icon = ''exchange''\<rparr>]"

text \<open>
  The mapping \<^verbatim>\<open>{ ...category, userId, description: `Default ${category.name} category` }\<close>.
\<close>

definition default_input :: "ident \<Rightarrow> default_category \<Rightarrow> category_input" where
  "default_input userId c =
     \<lparr>ci_name = dc_name c, ci_type = dc_type c, ci_color = Some (dc_color c),
      ci_icon = Some (dc_icon c), ci_userId = userId,
      ci_description = Some (''Default '' @ dc_name c @ '' category'')\<rparr>"

definition createDefaultCategories :: "timestamp \<Rightarrow> ident \<Rightarrow> unit prog" where
  "createDefaultCategories now userId =
     catch
       (bind (category_createMany_skipDuplicates now (map (default_input userId) defaultCategories))
          (\<lambda>_. logger (CreatedDefaultCategories userId)))
       (\<lambda>error. logger (FailedDefaultCategories userId error))"

definition syncUser :: "timestamp \<Rightarrow> string \<Rightarrow> payload \<Rightarrow> user prog" where
  "syncUser now auth0Id tokenPayload =
     catch
       (bind (user_findUnique auth0Id) (\<lambda>found.
          case found of
            None \<Rightarrow>
              bind (user_create now
                      \<lparr>uc_auth0Id = auth0Id,
                       uc_email = js_or_str (claim_email tokenPayload) (auth0Id @ ''@wisecalk.com''),
                       uc_firstName = js_or (claim_given_name tokenPayload)
                                            (name_first (claim_name tokenPayload)),
                       uc_lastName = js_or (claim_family_name tokenPayload)
                                           (name_rest (claim_name tokenPayload)),
                       uc_timezone = js_or_str (claim_zoneinfo tokenPayload) ''UTC'',
                       uc_locale = js_or_str (claim_locale tokenPayload) ''en-US''\<rparr>)
                (\<lambda>user.
                   bind (logger (CreatedNewUser (usr_email user))) (\<lambda>_.
                   bind (createDefaultCategories now (usr_id user)) (\<lambda>_.
                   ret user)))
          | Some user \<Rightarrow>
              bind (user_update now (usr_id user)
                      \<lparr>uu_email = js_or_str (claim_email tokenPayload) (usr_email user),
                       uu_firstName = js_or (claim_given_name tokenPayload) (usr_firstName user),
                       uu_lastName = js_or (claim_family_name tokenPayload) (usr_lastName user),
                       uu_timezone = js_or_str (claim_zoneinfo tokenPayload) (usr_timezone user),
                       uu_locale = js_or_str (claim_locale tokenPayload) (usr_locale user)\<rparr>)
                (\<lambda>user. ret user)))
       (\<lambda>error. bind (logger (FailedSyncUser auth0Id error)) (\<lambda>_. throw error))"

section \<open>JwtStrategy.validate (jwt.strategy.ts)\<close>

text \<open>The session object \<^verbatim>\<open>validate\<close> returns.\<close>

record session =
  sess_userId :: ident
  sess_auth0Id :: string
  sess_email :: "string option"
  sess_roles :: "string list"
  sess_permissions :: "string list"
  sess_scope :: "string option"

definition validate :: "timestamp \<Rightarrow> payload \<Rightarrow> session prog" where
  "validate now payload =
     (case claim_sub payload of
        None \<Rightarrow> throw (UnauthorizedException ''Invalid token structure'')
      | Some sub \<Rightarrow>
          if sub = [] then throw (UnauthorizedException ''Invalid token structure'')
          else
            bind (syncUser now sub payload) (\<lambda>user.
              ret \<lparr>sess_userId = usr_id user,
                   sess_auth0Id = sub,
                   sess_email = claim_email payload,
                   sess_roles = js_or_list (claim_roles payload) [],
                   sess_permissions = js_or_list (claim_permissions payload) [],
                   sess_scope = claim_scope payload\<rparr>))"

section \<open>AppService.getDbHealth (src/app.controller.ts)\<close>

text \<open>
  The object under \<^verbatim>\<open>database\<close>: a key the branch does not write is \<open>None\<close>.
  \<open>h_timestamp\<close> is the clock reading behind \<^verbatim>\<open>new Date().toISOString()\<close>.
\<close>

record database_health =
  db_connected :: bool
  db_users :: "nat option"
  db_currencies :: "nat option"
  db_error :: "string option"

record health =
  h_status :: string
  h_timestamp :: timestamp
  h_database :: database_health
  h_message :: string

definition getDbHealth :: "timestamp \<Rightarrow> health prog" where
  "getDbHealth now =
     catch
       (bind user_count (\<lambda>userCount.
        bind currency_count (\<lambda>currencyCount.
        ret \<lparr>h_status = ''ok'',
             h_timestamp = now,
             h_database = \<lparr>db_connected = True, db_users = Some userCount,
                            db_currencies = Some currencyCount, db_error = None\<rparr>,
             h_message = ''Database connection is healthy!''\<rparr>)))
       (\<lambda>error.
        ret \<lparr>h_status = ''error'',
             h_timestamp = now,
             h_database = \<lparr>db_connected = False, db_users = None,
                            db_currencies = None, db_error = Some (message error)\<rparr>,
             h_message = ''Database connection failed!''\<rparr>)"

section \<open>Exchange rates: the table and the seed script\<close>












section \<open>Transactions and the transfer pairing (migration.sql)\<close>

text \<open>\<^verbatim>\<open>CREATE TYPE "TransactionType" AS ENUM ('INCOME', 'EXPENSE', 'TRANSFER')\<close>\<close>

datatype TransactionType = TXN_INCOME | TXN_EXPENSE | TXN_TRANSFER

text \<open>Table \<^verbatim>\<open>transactions\<close>; \<^verbatim>\<open>amount DECIMAL(15,2)\<close> is in hundredths.\<close>

record transaction_row =
  txn_id :: ident
  txn_amount :: int
  txn_description :: string
  txn_notes :: "string option"
  txn_type :: TransactionType
  txn_date :: nat
  txn_accountId :: ident
  txn_categoryId :: ident
  txn_currencyId :: ident
  txn_userId :: ident
  txn_transferToId :: "ident option"
  txn_receiptUrl :: "string option"
  txn_isReconciled :: bool
  txn_reconciledAt :: "timestamp option"
  txn_createdAt :: timestamp
  txn_updatedAt :: timestamp
  txn_deletedAt :: "timestamp option"

text \<open>
  No service of the repository writes this table yet, so its states are those the schema
  admits: the ones SQL statements can reach from the empty table under
  \<^verbatim>\<open>transactions_pkey\<close>, the unique index \<^verbatim>\<open>transactions_transfer_to_id_key\<close> (on a
  nullable column: \<^verbatim>\<open>NULL\<close> entries never collide) and the self-reference
  \<^verbatim>\<open>transactions_transfer_to_id_fkey ... ON DELETE SET NULL ON UPDATE CASCADE\<close>. The
  foreign keys into the other tables can only reject more statements; they are left out,
  which admits more states, not fewer.
\<close>

datatype statement =
    Insert transaction_row
  | SetTransferTo ident "ident option"
  | SetId ident ident
  | SetColumns ident "transaction_row \<Rightarrow> transaction_row"
  | Delete ident

definition transfer_taken :: "ident \<Rightarrow> ident \<Rightarrow> transaction_row list \<Rightarrow> bool" where
  "transfer_taken self t rows =
     (\<exists>r \<in> set rows. txn_id r \<noteq> self \<and> txn_transferToId r = Some t)"

definition id_exists :: "ident \<Rightarrow> transaction_row list \<Rightarrow> bool" where
  "id_exists i rows = (\<exists>r \<in> set rows. txn_id r = i)"

fun exec :: "statement \<Rightarrow> transaction_row list \<Rightarrow> error + transaction_row list" where
  "exec (Insert row) rows =
     (if id_exists (txn_id row) rows then Inl (UniqueConstraintFailed ''transactions_pkey'')
      else case txn_transferToId row of
        None \<Rightarrow> Inr (rows @ [row])
      | Some t \<Rightarrow>
          if transfer_taken (txn_id row) t rows
            then Inl (UniqueConstraintFailed ''transactions_transfer_to_id_key'')
          else if \<not> (id_exists t rows \<or> t = txn_id row)
            then Inl (ForeignKeyConstraintFailed ''transactions_transfer_to_id_fkey'')
          else Inr (rows @ [row]))"
| "exec (SetTransferTo i v) rows =
     (if \<not> id_exists i rows then Inr rows
      else case v of
        None \<Rightarrow> Inr (map (\<lambda>r. if txn_id r = i then r\<lparr>txn_transferToId := None\<rparr> else r) rows)
      | Some t \<Rightarrow>
          if transfer_taken i t rows
            then Inl (UniqueConstraintFailed ''transactions_transfer_to_id_key'')
          else if \<not> id_exists t rows
            then Inl (ForeignKeyConstraintFailed ''transactions_transfer_to_id_fkey'')
          else Inr (map (\<lambda>r. if txn_id r = i then r\<lparr>txn_transferToId := Some t\<rparr> else r) rows))"
| "exec (SetId i j) rows =
     (if \<not> id_exists i rows \<or> i = j then Inr rows
      else if id_exists j rows then Inl (UniqueConstraintFailed ''transactions_pkey'')
      else Inr (map (\<lambda>r. r\<lparr>txn_id := (if txn_id r = i then j else txn_id r),
                            txn_transferToId := (if txn_transferToId r = Some i then Some j
                                                 else txn_transferToId r)\<rparr>) rows))"
| "exec (SetColumns i f) rows =
     Inr (map (\<lambda>r. if txn_id r = i
                    then (f r)\<lparr>txn_id := txn_id r, txn_transferToId := txn_transferToId r\<rparr>
                    else r) rows)"
| "exec (Delete i) rows =
     Inr (map (\<lambda>r. if txn_transferToId r = Some i then r\<lparr>txn_transferToId := None\<rparr> else r)
            (filter (\<lambda>r. txn_id r \<noteq> i) rows))"

text \<open>A statement that fails leaves the table as it was.\<close>

fun run :: "statement list \<Rightarrow> transaction_row list \<Rightarrow> transaction_row list" where
  "run [] rows = rows"
| "run (s # ss) rows = (case exec s rows of Inl e \<Rightarrow> run ss rows | Inr rows' \<Rightarrow> run ss rows')"

text \<open>The transfer targets claimed in a table: its non-null \<^verbatim>\<open>transfer_to_id\<close>s.\<close>

definition transfer_targets :: "transaction_row list \<Rightarrow> ident list" where
  "transfer_targets rows = List.map_filter txn_transferToId rows"

text \<open>
  What the three constraints keep true of the table: the primary key, the foreign key of
  the self-reference, and that two rows with the same non-null \<^verbatim>\<open>transfer_to_id\<close> are
  the same row.
\<close>

definition transactions_pkey :: "transaction_row list \<Rightarrow> bool" where
  "transactions_pkey rows = distinct (map txn_id rows)"

definition transfer_to_id_fkey :: "transaction_row list \<Rightarrow> bool" where
  "transfer_to_id_fkey rows =
     (\<forall>r \<in> set rows. \<forall>t. txn_transferToId r = Some t \<longrightarrow> id_exists t rows)"

definition transfer_to_id_key :: "transaction_row list \<Rightarrow> bool" where
  "transfer_to_id_key rows =
     (\<forall>r1 \<in> set rows. \<forall>r2 \<in> set rows.
        txn_transferToId r1 \<noteq> None \<and> txn_transferToId r1 = txn_transferToId r2 \<longrightarrow>
        txn_id r1 = txn_id r2)"

section \<open>Integrity of a store\<close>

text \<open>
  What the migration's constraints keep true of the tables the synchronization touches:
  \<^verbatim>\<open>users_pkey\<close>; \<^verbatim>\<open>categories_user_id_fkey\<close> (every category has its owner);
  and that the identifier supply hands out identifiers no category row has yet.
\<close>

definition users_pkey :: "world \<Rightarrow> bool" where
  "users_pkey w = distinct (map usr_id (users w))"

definition categories_user_id_fkey :: "world \<Rightarrow> bool" where
  "categories_user_id_fkey w =
     (\<forall>c \<in> set (categories w). \<exists>u \<in> set (users w). usr_id u = cat_userId c)"

definition supply_unused :: "world \<Rightarrow> bool" where
  "supply_unused w = (\<forall>c \<in> set (categories w). cat_id c < idSupply w)"

text \<open>The categories a user owns.\<close>

definition categories_of :: "ident \<Rightarrow> world \<Rightarrow> category list" where
  "categories_of userId w = filter (\<lambda>c. cat_userId c = userId) (categories w)"

text \<open>
  The triple of the index \<^verbatim>\<open>categories_user_id_name_parent_id_key\<close>, read as plain
  values: two rows with the same triple are two categories of one user with one name
  under one parent, or both at the top level.
\<close>

definition cat_key :: "category \<Rightarrow> ident \<times> string \<times> ident option" where
  "cat_key c = (cat_userId c, cat_name c, cat_parentId c)"

text \<open>
  A run of the service: the logins it serves one after the other, each with the time, the
  external id and the token payload of the call to \<^verbatim>\<open>syncUser\<close>, whatever each returns
  or throws.
\<close>

fun logins :: "(timestamp \<times> string \<times> payload) list \<Rightarrow> world \<Rightarrow> world" where
  "logins [] w = w"
| "logins ((now, auth0Id, tokenPayload) # rest) w =
     logins rest (snd (syncUser now auth0Id tokenPayload w))"

section \<open>Concrete stores and payloads\<close>

text \<open>An empty database that stays up, and a token carrying nothing but its subject.\<close>

definition empty_store :: world where
  "empty_store = \<lparr>users = [], categories = [], currencies = [], exchangeRates = [],
                   idSupply = 0, faults = [], logs = []\<rparr>"

definition bare_payload :: "string \<Rightarrow> payload" where
  "bare_payload sub =
     \<lparr>claim_sub = Some sub, claim_email = None, claim_given_name = None,
      claim_family_name = None, claim_name = None, claim_zoneinfo = None,
      claim_locale = None, claim_roles = None, claim_permissions = None,
      claim_scope = None\<rparr>"

text \<open>A user who logged in at time 1, and the database holding that row.\<close>

definition ada :: user where
  "ada = \<lparr>usr_id = 0, usr_auth0Id = ''auth0|ada'', usr_email = ''ada@example.com'',
           usr_firstName = Some ''Ada'', usr_lastName = None, usr_timezone = ''Europe/London'',
           usr_locale = ''en-GB'', usr_createdAt = 1, usr_updatedAt = 1,
           usr_deletedAt = None\<rparr>"

definition ada_store :: world where
  "ada_store = empty_store\<lparr>users := [ada], idSupply := 1\<rparr>"

text \<open>A first-login token with a full name and an empty locale claim.\<close>

definition lovelace_payload :: payload where
  "lovelace_payload =
     (bare_payload ''auth0|lovelace'')
       \<lparr>claim_name := Some ''Ada King Lovelace'', claim_locale := Some ''''\<rparr>"

text \<open>
  The rows a seeding of the default categories inserts for a user when the supply is at
  \<open>i\<close> and no row is skipped: one per entry of the catalog, in order.
\<close>

definition seeded_rows :: "timestamp \<Rightarrow> ident \<Rightarrow> ident \<Rightarrow> category list" where
  "seeded_rows now i userId =
     map (\<lambda>(k, c). category_row now k (default_input userId c))
       (zip [i ..< i + length defaultCategories] defaultCategories)"

text \<open>The row and the store after the first login of \<open>lovelace_payload\<close> at time 5.\<close>

definition lovelace :: user where
  "lovelace = \<lparr>usr_id = 0, usr_auth0Id = ''auth0|lovelace'',
                usr_email = ''auth0|lovelace@wisecalk.com'',
                usr_firstName = Some ''Ada'', usr_lastName = Some ''King Lovelace'',
                usr_timezone = ''UTC'', usr_locale = ''en-US'',
                usr_createdAt = 5, usr_updatedAt = 5, usr_deletedAt = None\<rparr>"

definition lovelace_store :: world where
  "lovelace_store =
     \<lparr>users = [lovelace], categories = seeded_rows 5 1 0, currencies = [],
      exchangeRates = [], idSupply = 16, faults = [],
      logs = [CreatedNewUser ''auth0|lovelace@wisecalk.com'', CreatedDefaultCategories 0]\<rparr>"







text \<open>A transfer of 25.00 on day 20000, with the given id and paired reference.\<close>

definition transfer_row :: "ident \<Rightarrow> ident option \<Rightarrow> transaction_row" where
  "transfer_row i t =
     \<lparr>txn_id = i, txn_amount = 2500, txn_description = ''Move to savings'', txn_notes = None,
      txn_type = TXN_TRANSFER, txn_date = 20000, txn_accountId = 10, txn_categoryId = 15,
      txn_currencyId = 1, txn_userId = 0, txn_transferToId = t, txn_receiptUrl = None,
      txn_isReconciled = False, txn_reconciledAt = None, txn_createdAt = 7,
      txn_updatedAt = 7, txn_deletedAt = None\<rparr>"

section \<open>Basic facts about the store and the synchronization\<close>

lemma store_call_tables:
  "store_call w = (r, w1) \<Longrightarrow>
     users w1 = users w \<and> categories w1 = categories w \<and> currencies w1 = currencies w \<and>
     exchangeRates w1 = exchangeRates w \<and> idSupply w1 = idSupply w \<and> logs w1 = logs w"
  by (auto simp: store_call_def split: list.splits option.splits)

lemma store_call_result:
  "store_call w = (r, w1) \<Longrightarrow>
     (\<exists>m fs. faults w = Some m # fs \<and> r = Inl (StoreFailure m) \<and> w1 = w\<lparr>faults := fs\<rparr>) \<or>
     (r = Inr () \<and> (faults w = [] \<and> w1 = w \<or> (\<exists>fs. faults w = None # fs \<and> w1 = w\<lparr>faults := fs\<rparr>)))"
  by (auto simp: store_call_def split: list.splits option.splits)

lemma createDefaultCategories_returns:
  "\<exists>w'. createDefaultCategories now i w = (Inr (), w')"
  unfolding createDefaultCategories_def category_createMany_skipDuplicates_def catch_def bind_def
    logger_def
  by (auto split: prod.splits sum.splits)

lemma createDefaultCategories_frame:
  "createDefaultCategories now i w = (r, w') \<Longrightarrow>
     users w' = users w \<and> currencies w' = currencies w \<and> exchangeRates w' = exchangeRates w"
  unfolding createDefaultCategories_def category_createMany_skipDuplicates_def catch_def bind_def
    logger_def
  by (auto split: prod.splits sum.splits if_splits dest: store_call_tables)

lemma syncUser_lookup_fails:
  "user_findUnique a w = (Inl e, w1) \<Longrightarrow>
     syncUser now a p w = (Inl e, w1\<lparr>logs := logs w1 @ [FailedSyncUser a e]\<rparr>)"
  by (simp add: syncUser_def catch_def bind_def logger_def throw_def)

lemma syncUser_update_branch:
  "user_findUnique a w = (Inr (Some old), w1) \<Longrightarrow>
     syncUser now a p w =
       (case user_update now (usr_id old)
               \<lparr>uu_email = js_or_str (claim_email p) (usr_email old),
                uu_firstName = js_or (claim_given_name p) (usr_firstName old),
                uu_lastName = js_or (claim_family_name p) (usr_lastName old),
                uu_timezone = js_or_str (claim_zoneinfo p) (usr_timezone old),
                uu_locale = js_or_str (claim_locale p) (usr_locale old)\<rparr> w1 of
          (Inl e, w2) \<Rightarrow> (Inl e, w2\<lparr>logs := logs w2 @ [FailedSyncUser a e]\<rparr>)
        | (Inr u, w2) \<Rightarrow> (Inr u, w2))"
  by (simp add: syncUser_def catch_def bind_def logger_def throw_def ret_def
      split: prod.splits sum.splits)

lemma syncUser_create_branch:
  "user_findUnique a w = (Inr None, w1) \<Longrightarrow>
     syncUser now a p w =
       (case user_create now
               \<lparr>uc_auth0Id = a,
                uc_email = js_or_str (claim_email p) (a @ ''@wisecalk.com''),
                uc_firstName = js_or (claim_given_name p) (name_first (claim_name p)),
                uc_lastName = js_or (claim_family_name p) (name_rest (claim_name p)),
                uc_timezone = js_or_str (claim_zoneinfo p) ''UTC'',
                uc_locale = js_or_str (claim_locale p) ''en-US''\<rparr> w1 of
          (Inl e, w2) \<Rightarrow> (Inl e, w2\<lparr>logs := logs w2 @ [FailedSyncUser a e]\<rparr>)
        | (Inr u, w2) \<Rightarrow>
            (Inr u, snd (createDefaultCategories now (usr_id u)
                           (w2\<lparr>logs := logs w2 @ [CreatedNewUser (usr_email u)]\<rparr>))))"
proof -
  assume f: "user_findUnique a w = (Inr None, w1)"
  let ?d = "\<lparr>uc_auth0Id = a,
                uc_email = js_or_str (claim_email p) (a @ ''@wisecalk.com''),
                uc_firstName = js_or (claim_given_name p) (name_first (claim_name p)),
                uc_lastName = js_or (claim_family_name p) (name_rest (claim_name p)),
                uc_timezone = js_or_str (claim_zoneinfo p) ''UTC'',
                uc_locale = js_or_str (claim_locale p) ''en-US''\<rparr>"
  obtain r w2 where c: "user_create now ?d w1 = (r, w2)"
    by (cases "user_create now ?d w1")
  show ?thesis
  proof (cases r)
    case (Inl e)
    with f c show ?thesis
      by (simp add: syncUser_def catch_def bind_def logger_def throw_def)
  next
    case (Inr u)
    obtain w3 where s: "createDefaultCategories now (usr_id u)
        (w2\<lparr>logs := logs w2 @ [CreatedNewUser (usr_email u)]\<rparr>) = (Inr (), w3)"
      using createDefaultCategories_returns by blast
    with f c Inr show ?thesis
      by (simp add: syncUser_def catch_def bind_def logger_def ret_def)
  qed
qed

lemma user_findUnique_result:
  "user_findUnique a w = (r, w1) \<Longrightarrow>
     users w1 = users w \<and> categories w1 = categories w \<and> currencies w1 = currencies w \<and>
     exchangeRates w1 = exchangeRates w \<and> idSupply w1 = idSupply w \<and> logs w1 = logs w \<and>
     (\<forall>found. r = Inr found \<longrightarrow> found = find (\<lambda>u. usr_auth0Id u = a) (users w))"
  unfolding user_findUnique_def bind_def
  by (auto split: prod.splits sum.splits if_splits dest: store_call_tables)

lemma user_create_ok:
  "user_create now d w = (Inr u, w') \<Longrightarrow>
     u = \<lparr>usr_id = idSupply w, usr_auth0Id = uc_auth0Id d, usr_email = uc_email d,
          usr_firstName = uc_firstName d, usr_lastName = uc_lastName d,
          usr_timezone = uc_timezone d, usr_locale = uc_locale d,
          usr_createdAt = now, usr_updatedAt = now, usr_deletedAt = None\<rparr> \<and>
     users w' = users w @ [u] \<and> categories w' = categories w \<and> currencies w' = currencies w \<and>
     exchangeRates w' = exchangeRates w \<and> idSupply w' = Suc (idSupply w) \<and> logs w' = logs w \<and>
     (\<forall>v \<in> set (users w). usr_id v \<noteq> usr_id u \<and> usr_auth0Id v \<noteq> usr_auth0Id u \<and>
                              usr_email v \<noteq> usr_email u)"
  unfolding user_create_def bind_def fresh_id_def Let_def
  by (auto split: prod.splits sum.splits if_splits dest: store_call_tables)

lemma user_create_fails:
  "user_create now d w = (Inl e, w') \<Longrightarrow>
     users w' = users w \<and> categories w' = categories w \<and> currencies w' = currencies w \<and>
     exchangeRates w' = exchangeRates w \<and> logs w' = logs w"
  unfolding user_create_def bind_def fresh_id_def Let_def
  by (auto split: prod.splits sum.splits if_splits dest: store_call_tables)

lemma user_update_ok:
  "user_update now i d w = (Inr u, w') \<Longrightarrow>
     (\<exists>old. find (\<lambda>v. usr_id v = i) (users w) = Some old \<and> u = apply_user_update now d old) \<and>
     users w' = map (\<lambda>v. if usr_id v = i then apply_user_update now d v else v) (users w) \<and>
     categories w' = categories w \<and> currencies w' = currencies w \<and>
     exchangeRates w' = exchangeRates w \<and> idSupply w' = idSupply w \<and> logs w' = logs w"
  unfolding user_update_def bind_def
  by (auto split: prod.splits sum.splits if_splits option.splits dest: store_call_tables)

lemma user_update_fails:
  "user_update now i d w = (Inl e, w') \<Longrightarrow>
     users w' = users w \<and> categories w' = categories w \<and> currencies w' = currencies w \<and>
     exchangeRates w' = exchangeRates w \<and> idSupply w' = idSupply w \<and> logs w' = logs w"
  unfolding user_update_def bind_def
  by (auto split: prod.splits sum.splits if_splits option.splits dest: store_call_tables)

lemma split_nonempty: "split c s \<noteq> []"
  by (induction s) (auto split: list.splits)

lemma hd_split: "hd (split c s) = takeWhile (\<lambda>x. x \<noteq> c) s"
  by (induction s) (auto split: list.splits simp: split_nonempty)

lemma join_split: "join [c] (split c s) = s"
proof (induction s)
  case Nil
  then show ?case by simp
next
  case (Cons x xs)
  show ?case
  proof (cases "x = c")
    case True
    obtain p ps where "split c xs = p # ps" using split_nonempty[of c xs] by (cases "split c xs") auto
    with Cons True show ?thesis by simp
  next
    case False
    obtain p ps where e: "split c xs = p # ps" using split_nonempty[of c xs] by (cases "split c xs") auto
    with Cons False show ?thesis by (cases ps) auto
  qed
qed

lemma tl_split: "join [c] (drop 1 (split c s)) = drop 1 (dropWhile (\<lambda>x. x \<noteq> c) s)"
proof (induction s)
  case Nil
  then show ?case by simp
next
  case (Cons x xs)
  show ?case
  proof (cases "x = c")
    case True
    then show ?thesis by (simp add: join_split)
  next
    case False
    obtain p ps where e: "split c xs = p # ps" using split_nonempty[of c xs] by (cases "split c xs") auto
    with Cons False show ?thesis by simp
  qed
qed

lemma name_first_eq:
  "name_first n = map_option (takeWhile (\<lambda>x. x \<noteq> CHR '' '')) n"
  using hd_split[of "CHR '' ''"] split_nonempty[of "CHR '' ''"]
  by (auto simp: name_first_def split: option.splits list.splits) (metis list.sel(1))

lemma name_rest_eq:
  "name_rest n = map_option (\<lambda>s. drop 1 (dropWhile (\<lambda>x. x \<noteq> CHR '' '') s)) n"
  using tl_split[of "CHR '' ''"]
  by (auto simp: name_rest_def split: option.splits)


lemma find_map_preserved:
  "(\<And>x. P (f x) = P x) \<Longrightarrow> find P (map f xs) = map_option f (find P xs)"
  by (induction xs) auto

lemma find_distinct_key:
  "distinct (map k xs) \<Longrightarrow> x \<in> set xs \<Longrightarrow> find (\<lambda>v. k v = k x) xs = Some x"
  by (induction xs) force+

lemma find_Some_mem: "find P xs = Some x \<Longrightarrow> x \<in> set xs \<and> P x"
  by (induction xs) (auto split: if_splits)












lemma syncUser_present:
  assumes pk: "users_pkey w"
    and found: "find (\<lambda>v. usr_auth0Id v = a) (users w) = Some old"
    and s: "syncUser now a p w = (r, w')"
  shows "categories w' = categories w \<and> currencies w' = currencies w \<and>
         exchangeRates w' = exchangeRates w \<and> idSupply w' = idSupply w \<and>
         ((\<exists>e. r = Inl e \<and> users w' = users w \<and> logs w' = logs w @ [FailedSyncUser a e]) \<or>
          (r = Inr (apply_user_update now
                      \<lparr>uu_email = js_or_str (claim_email p) (usr_email old),
                       uu_firstName = js_or (claim_given_name p) (usr_firstName old),
                       uu_lastName = js_or (claim_family_name p) (usr_lastName old),
                       uu_timezone = js_or_str (claim_zoneinfo p) (usr_timezone old),
                       uu_locale = js_or_str (claim_locale p) (usr_locale old)\<rparr> old) \<and>
           logs w' = logs w \<and>
           users w' = map (\<lambda>v. if usr_id v = usr_id old
                                then apply_user_update now
                      \<lparr>uu_email = js_or_str (claim_email p) (usr_email old),
                       uu_firstName = js_or (claim_given_name p) (usr_firstName old),
                       uu_lastName = js_or (claim_family_name p) (usr_lastName old),
                       uu_timezone = js_or_str (claim_zoneinfo p) (usr_timezone old),
                       uu_locale = js_or_str (claim_locale p) (usr_locale old)\<rparr> v
                                else v) (users w)))"
proof -
  let ?d = "\<lparr>uu_email = js_or_str (claim_email p) (usr_email old),
                       uu_firstName = js_or (claim_given_name p) (usr_firstName old),
                       uu_lastName = js_or (claim_family_name p) (usr_lastName old),
                       uu_timezone = js_or_str (claim_zoneinfo p) (usr_timezone old),
                       uu_locale = js_or_str (claim_locale p) (usr_locale old)\<rparr>"
  obtain rf w1 where f: "user_findUnique a w = (rf, w1)"
    by (cases "user_findUnique a w")
  note fr = user_findUnique_result [OF f]
  show ?thesis
  proof (cases rf)
    case (Inl e)
    with f s fr show ?thesis
      by (auto simp: syncUser_lookup_fails)
  next
    case (Inr x)
    with fr found have x: "rf = Inr (Some old)" by simp
    obtain ru w2 where u: "user_update now (usr_id old) ?d w1 = (ru, w2)"
      by (cases "user_update now (usr_id old) ?d w1")
    from found have mem: "old \<in> set (users w)"
      by (simp add: find_Some_mem)
    show ?thesis
    proof (cases ru)
      case (Inl e)
      with s f x u have "r = Inl e" "w' = w2\<lparr>logs := logs w2 @ [FailedSyncUser a e]\<rparr>"
        by (simp_all add: syncUser_update_branch)
      with user_update_fails [OF u [unfolded Inl]] fr show ?thesis
        by simp
    next
      case (Inr v)
      with s f x u have rw: "r = Inr v" "w' = w2"
        by (simp_all add: syncUser_update_branch)
      from pk mem fr have "find (\<lambda>v. usr_id v = usr_id old) (users w1) = Some old"
        by (simp add: users_pkey_def find_distinct_key)
      with user_update_ok [OF u [unfolded Inr]] fr rw show ?thesis
        by simp
    qed
  qed
qed

lemma syncUser_absent:
  assumes absent: "find (\<lambda>v. usr_auth0Id v = a) (users w) = None"
    and s: "syncUser now a p w = (r, w')"
  shows "currencies w' = currencies w \<and> exchangeRates w' = exchangeRates w \<and>
         ((\<exists>e. r = Inl e \<and> users w' = users w \<and> categories w' = categories w \<and>
               logs w' = logs w @ [FailedSyncUser a e]) \<or>
          (\<exists>u. r = Inr u \<and> users w' = users w @ [u] \<and> usr_auth0Id u = a \<and>
               usr_id u = idSupply w \<and> (\<forall>v \<in> set (users w). usr_id v \<noteq> usr_id u)))"
proof -
  let ?d = "\<lparr>uc_auth0Id = a,
             uc_email = js_or_str (claim_email p) (a @ ''@wisecalk.com''),
             uc_firstName = js_or (claim_given_name p) (name_first (claim_name p)),
             uc_lastName = js_or (claim_family_name p) (name_rest (claim_name p)),
             uc_timezone = js_or_str (claim_zoneinfo p) ''UTC'',
             uc_locale = js_or_str (claim_locale p) ''en-US''\<rparr>"
  obtain rf w1 where f: "user_findUnique a w = (rf, w1)"
    by (cases "user_findUnique a w")
  note fr = user_findUnique_result [OF f]
  show ?thesis
  proof (cases rf)
    case (Inl e)
    with f s fr show ?thesis
      by (auto simp: syncUser_lookup_fails)
  next
    case (Inr x)
    with fr absent have x: "rf = Inr None" by simp
    obtain rc w2 where c: "user_create now ?d w1 = (rc, w2)"
      by (cases "user_create now ?d w1")
    show ?thesis
    proof (cases rc)
      case (Inl e)
      with s f x c have "r = Inl e" "w' = w2\<lparr>logs := logs w2 @ [FailedSyncUser a e]\<rparr>"
        by (simp_all add: syncUser_create_branch)
      with user_create_fails [OF c [unfolded Inl]] fr show ?thesis
        by simp
    next
      case (Inr u)
      with s f x c have rw: "r = Inr u"
        "w' = snd (createDefaultCategories now (usr_id u)
                     (w2\<lparr>logs := logs w2 @ [CreatedNewUser (usr_email u)]\<rparr>))"
        by (simp_all add: syncUser_create_branch)
      obtain rd w3 where d: "createDefaultCategories now (usr_id u)
                     (w2\<lparr>logs := logs w2 @ [CreatedNewUser (usr_email u)]\<rparr>) = (rd, w3)"
        by (cases "createDefaultCategories now (usr_id u)
                     (w2\<lparr>logs := logs w2 @ [CreatedNewUser (usr_email u)]\<rparr>)")
      note co = user_create_ok [OF c [unfolded Inr]]
      from co fr have "\<forall>v \<in> set (users w). usr_id v \<noteq> usr_id u" by metis
      moreover from co fr have "usr_auth0Id u = a" "usr_id u = idSupply w" by simp_all
      moreover from createDefaultCategories_frame [OF d] co fr rw d
      have "users w' = users w @ [u]" "currencies w' = currencies w"
        "exchangeRates w' = exchangeRates w" by simp_all
      ultimately show ?thesis using rw by blast
    qed
  qed
qed

lemma map_replace_key:
  "distinct (map k xs) \<Longrightarrow> x \<in> set xs \<Longrightarrow>
     map (\<lambda>v. if k v = k x then f v else v) xs = map (\<lambda>v. if k v = k x then f x else v) xs"
  by (auto simp: distinct_map inj_on_def)

lemma find_snoc:
  "find P (xs @ [u]) = (case find P xs of None \<Rightarrow> (if P u then Some u else None) | Some x \<Rightarrow> Some x)"
  by (induction xs) auto

lemma ada_second_login:
  "syncUser 2 ''auth0|ada'' (bare_payload ''auth0|ada'') ada_store =
     (Inr (ada\<lparr>usr_updatedAt := 2\<rparr>), ada_store\<lparr>users := [ada\<lparr>usr_updatedAt := 2\<rparr>]\<rparr>)"
  by (simp add: syncUser_def catch_def bind_def ret_def user_findUnique_def user_update_def
      store_call_def ada_store_def empty_store_def ada_def bare_payload_def
      apply_user_update_def js_or_def js_or_str_def pg_text_def pg_text_opt_def)

lemma apply_user_update_keeps:
  "usr_id (apply_user_update now d v) = usr_id v"
  "usr_auth0Id (apply_user_update now d v) = usr_auth0Id v"
  "usr_createdAt (apply_user_update now d v) = usr_createdAt v"
  "usr_deletedAt (apply_user_update now d v) = usr_deletedAt v"
  by (simp_all add: apply_user_update_def)

lemma syncUser_present_frame:
  assumes pk: "users_pkey w"
    and found: "find (\<lambda>v. usr_auth0Id v = a) (users w) = Some old"
    and s: "syncUser now a p w = (r, w')"
  shows "map usr_id (users w') = map usr_id (users w) \<and>
         map usr_auth0Id (users w') = map usr_auth0Id (users w) \<and>
         map usr_createdAt (users w') = map usr_createdAt (users w) \<and>
         map usr_deletedAt (users w') = map usr_deletedAt (users w) \<and>
         categories w' = categories w \<and>
         (\<forall>v \<in> set (users w). usr_id v \<noteq> usr_id old \<longrightarrow> v \<in> set (users w')) \<and>
         (\<forall>u. r = Inr u \<longrightarrow>
            usr_id u = usr_id old \<and> usr_auth0Id u = a \<and>
            find (\<lambda>v. usr_auth0Id v = a) (users w') = Some u \<and>
            users w' = map (\<lambda>v. if usr_id v = usr_id old then u else v) (users w))"
proof -
  let ?d = "\<lparr>uu_email = js_or_str (claim_email p) (usr_email old),
             uu_firstName = js_or (claim_given_name p) (usr_firstName old),
             uu_lastName = js_or (claim_family_name p) (usr_lastName old),
             uu_timezone = js_or_str (claim_zoneinfo p) (usr_timezone old),
             uu_locale = js_or_str (claim_locale p) (usr_locale old)\<rparr>"
  let ?f = "\<lambda>v. if usr_id v = usr_id old then apply_user_update now ?d v else v"
  from find_Some_mem [OF found] have mem: "old \<in> set (users w)" and olda: "usr_auth0Id old = a"
    by simp_all
  note pr = syncUser_present [OF pk found s]
  show ?thesis
  proof (cases r)
    case (Inl e)
    with pr show ?thesis by auto
  next
    case (Inr u)
    with pr have u: "u = apply_user_update now ?d old" and us: "users w' = map ?f (users w)"
      and cs: "categories w' = categories w"
      by auto
    have keep: "\<And>v. usr_auth0Id (?f v) = usr_auth0Id v" "\<And>v. usr_id (?f v) = usr_id v"
      "\<And>v. usr_createdAt (?f v) = usr_createdAt v" "\<And>v. usr_deletedAt (?f v) = usr_deletedAt v"
      by (simp_all add: apply_user_update_keeps)
    have "find (\<lambda>v. usr_auth0Id v = a) (map ?f (users w)) =
          map_option ?f (find (\<lambda>v. usr_auth0Id v = a) (users w))"
      by (rule find_map_preserved) (simp add: apply_user_update_keeps)
    with found us u have fnd: "find (\<lambda>v. usr_auth0Id v = a) (users w') = Some u"
      by simp
    from pk mem have "map ?f (users w) =
        map (\<lambda>v. if usr_id v = usr_id old then apply_user_update now ?d old else v) (users w)"
      unfolding users_pkey_def by (rule map_replace_key)
    with us u have us': "users w' = map (\<lambda>v. if usr_id v = usr_id old then u else v) (users w)"
      by simp
    have other: "\<forall>v \<in> set (users w). usr_id v \<noteq> usr_id old \<longrightarrow> v \<in> set (users w')"
      unfolding us' by force
    have maps: "map usr_id (users w') = map usr_id (users w)"
      "map usr_auth0Id (users w') = map usr_auth0Id (users w)"
      "map usr_createdAt (users w') = map usr_createdAt (users w)"
      "map usr_deletedAt (users w') = map usr_deletedAt (users w)"
      unfolding us by (simp_all add: apply_user_update_keeps o_def cong: if_cong)
    from u olda have "usr_id u = usr_id old" "usr_auth0Id u = a"
      by (simp_all add: apply_user_update_keeps)
    with maps cs other fnd us' Inr show ?thesis by simp
  qed
qed

lemma syncUser_absent_frame:
  assumes absent: "find (\<lambda>v. usr_auth0Id v = a) (users w) = None"
    and s: "syncUser now a p w = (r, w')"
  shows "(\<exists>e. r = Inl e \<and> users w' = users w \<and> categories w' = categories w) \<or>
         (\<exists>u. r = Inr u \<and> users w' = users w @ [u] \<and> usr_auth0Id u = a \<and>
              (\<forall>v \<in> set (users w). usr_id v \<noteq> usr_id u) \<and>
              find (\<lambda>v. usr_auth0Id v = a) (users w') = Some u)"
  using syncUser_absent [OF absent s] absent
  by (auto simp: find_snoc)

lemma syncUser_pkey:
  assumes pk: "users_pkey w" and s: "syncUser now a p w = (r, w')"
  shows "users_pkey w'"
proof (cases "find (\<lambda>v. usr_auth0Id v = a) (users w)")
  case None
  from syncUser_absent_frame [OF None s]
  consider "users w' = users w"
    | u where "users w' = users w @ [u]" "\<forall>v \<in> set (users w). usr_id v \<noteq> usr_id u"
    by blast
  then show ?thesis
  proof cases
    case 1
    with pk show ?thesis by (simp add: users_pkey_def)
  next
    case 2
    then have "usr_id u \<notin> set (map usr_id (users w))" by auto
    with pk 2 show ?thesis by (simp add: users_pkey_def)
  qed
next
  case (Some old)
  from syncUser_present_frame [OF pk Some s] pk show ?thesis
    by (simp add: users_pkey_def)
qed


lemma category_conflict_top_level:
  "\<forall>r \<in> set rows. cat_id r \<noteq> i \<Longrightarrow> \<not> category_conflict (category_row now i d) rows"
  by (auto simp: category_conflict_def category_row_def)

lemma insert_skipDuplicates_unused:
  "\<forall>r \<in> set rows. cat_id r < i \<Longrightarrow>
     insert_skipDuplicates now ds rows i =
       (rows @ map (\<lambda>(k, d). category_row now k d) (zip [i ..< i + length ds] ds), i + length ds)"
proof (induction ds arbitrary: rows i)
  case Nil
  then show ?case by simp
next
  case (Cons d ds)
  from Cons.prems have nc: "\<not> category_conflict (category_row now i d) rows"
    by (intro category_conflict_top_level) auto
  from Cons.prems have "\<forall>r \<in> set (rows @ [category_row now i d]). cat_id r < Suc i"
    by (auto simp: category_row_def less_Suc_eq)
  from Cons.IH [OF this] nc show ?case
    by (simp add: upt_conv_Cons del: upt_Suc)
qed

lemma store_call_ok:
  "faults w = [] \<or> (\<exists>fs. faults w = None # fs) \<Longrightarrow>
     store_call w = (Inr (), w\<lparr>faults := tl (faults w)\<rparr>)"
  by (auto simp: store_call_def)

lemma createDefaultCategories_fails:
  "store_call w = (Inl e, w1) \<Longrightarrow>
     createDefaultCategories now i w = (Inr (), w1\<lparr>logs := logs w1 @ [FailedDefaultCategories i e]\<rparr>)"
  by (simp add: createDefaultCategories_def category_createMany_skipDuplicates_def catch_def
      bind_def logger_def)

lemma seeded_rows_owner: "\<forall>c \<in> set (seeded_rows now i userId). cat_userId c = userId"
  by (auto simp: seeded_rows_def category_row_def default_input_def dest: set_zip_rightD)

lemma defaultCategories_text:
  "\<forall>d \<in> set (map (default_input i) defaultCategories). category_input_text d"
  by (simp add: defaultCategories_def default_input_def category_input_text_def pg_text_def
      pg_text_opt_def)

lemma createDefaultCategories_inserts:
  assumes unused: "supply_unused w"
    and up: "faults w = [] \<or> (\<exists>fs. faults w = None # fs)"
    and owner: "\<exists>u \<in> set (users w). usr_id u = i"
  shows "createDefaultCategories now i w =
     (Inr (), w\<lparr>faults := tl (faults w),
                categories := categories w @ seeded_rows now (idSupply w) i,
                idSupply := idSupply w + length defaultCategories,
                logs := logs w @ [CreatedDefaultCategories i]\<rparr>)"
proof -
  from unused have "\<forall>r \<in> set (categories w). cat_id r < idSupply w"
    by (simp add: supply_unused_def)
  from insert_skipDuplicates_unused [OF this, of now "map (default_input i) defaultCategories"]
  have ins: "insert_skipDuplicates now (map (default_input i) defaultCategories) (categories w)
               (idSupply w) =
             (categories w @ seeded_rows now (idSupply w) i,
              idSupply w + length defaultCategories)"
    by (simp add: seeded_rows_def zip_map2 case_prod_unfold)
  from owner seeded_rows_owner [of now "idSupply w" i]
  have fk: "\<not> (\<exists>c \<in> set (seeded_rows now (idSupply w) i).
                  \<not> (\<exists>u \<in> set (users w). usr_id u = cat_userId c))"
    by auto
  have "\<exists>n. category_createMany_skipDuplicates now (map (default_input i) defaultCategories) w =
          (Inr n, w\<lparr>faults := tl (faults w),
                      categories := categories w @ seeded_rows now (idSupply w) i,
                      idSupply := idSupply w + length defaultCategories\<rparr>)"
    unfolding category_createMany_skipDuplicates_def bind_def
    using fk defaultCategories_text [of i] by (simp add: store_call_ok [OF up] ins)
  then show ?thesis
    by (auto simp: createDefaultCategories_def catch_def bind_def logger_def)
qed

lemma length_defaultCategories: "length defaultCategories = 15"
  by (simp add: defaultCategories_def)

lemma lovelace_first_login:
  "syncUser 5 ''auth0|lovelace'' lovelace_payload empty_store = (Inr lovelace, lovelace_store)"
proof -
  have f: "user_findUnique ''auth0|lovelace'' empty_store = (Inr None, empty_store)"
    by (simp add: user_findUnique_def bind_def store_call_def empty_store_def pg_text_def)
  have c: "user_create 5
             \<lparr>uc_auth0Id = ''auth0|lovelace'',
              uc_email = js_or_str (claim_email lovelace_payload) (''auth0|lovelace'' @ ''@wisecalk.com''),
              uc_firstName = js_or (claim_given_name lovelace_payload)
                               (name_first (claim_name lovelace_payload)),
              uc_lastName = js_or (claim_family_name lovelace_payload)
                              (name_rest (claim_name lovelace_payload)),
              uc_timezone = js_or_str (claim_zoneinfo lovelace_payload) ''UTC'',
              uc_locale = js_or_str (claim_locale lovelace_payload) ''en-US''\<rparr> empty_store =
           (Inr lovelace, empty_store\<lparr>idSupply := 1, users := [lovelace]\<rparr>)"
    by (simp add: user_create_def bind_def store_call_def fresh_id_def empty_store_def Let_def
        lovelace_payload_def bare_payload_def js_or_str_def js_or_def name_first_eq name_rest_eq
        lovelace_def pg_text_def pg_text_opt_def)
  let ?w = "empty_store\<lparr>idSupply := 1, users := [lovelace],
              logs := [CreatedNewUser ''auth0|lovelace@wisecalk.com'']\<rparr>"
  have d: "createDefaultCategories 5 0 ?w =
             (Inr (), ?w\<lparr>faults := tl (faults ?w),
                categories := categories ?w @ seeded_rows 5 (idSupply ?w) 0,
                idSupply := idSupply ?w + length defaultCategories,
                logs := logs ?w @ [CreatedDefaultCategories 0]\<rparr>)"
    by (rule createDefaultCategories_inserts)
       (simp_all add: supply_unused_def empty_store_def lovelace_def)
  show ?thesis
    using syncUser_create_branch [OF f, of 5 lovelace_payload] c d
    by (simp add: empty_store_def lovelace_store_def length_defaultCategories lovelace_def)
qed

lemma lovelace_second_login:
  "syncUser 9 ''auth0|lovelace'' (bare_payload ''auth0|lovelace'') lovelace_store =
     (Inr (lovelace\<lparr>usr_updatedAt := 9\<rparr>),
      lovelace_store\<lparr>users := [lovelace\<lparr>usr_updatedAt := 9\<rparr>]\<rparr>)"
  by (simp add: syncUser_def catch_def bind_def ret_def user_findUnique_def user_update_def
      store_call_def lovelace_store_def lovelace_def bare_payload_def
      apply_user_update_def js_or_def js_or_str_def pg_text_def pg_text_opt_def)

lemma store_call_faults:
  "store_call w = (r, w1) \<Longrightarrow> faults w1 = tl (faults w)"
  by (auto simp: store_call_def split: list.splits option.splits)

lemma user_findUnique_faults:
  "user_findUnique a w = (r, w1) \<Longrightarrow> faults w1 = tl (faults w)"
  unfolding user_findUnique_def bind_def
  by (auto split: prod.splits sum.splits if_splits dest: store_call_faults)

lemma user_create_faults:
  "user_create now d w = (r, w1) \<Longrightarrow> faults w1 = tl (faults w)"
  unfolding user_create_def bind_def fresh_id_def Let_def
  by (auto split: prod.splits sum.splits if_splits dest: store_call_faults)

lemma third_call_up:
  "\<forall>f \<in> set (take 3 xs). f = None \<Longrightarrow> tl (tl xs) = [] \<or> (\<exists>fs. tl (tl xs) = None # fs)"
  by (cases xs; cases "tl xs"; cases "tl (tl xs)"; auto simp: numeral_3_eq_3)

lemma map_over_zip:
  "length xs = length ys \<Longrightarrow> map (\<lambda>x. f (snd x)) (zip xs ys) = map f ys"
  by (induction xs ys rule: list_induct2) auto

lemma seeded_rows_catalog:
  "map (\<lambda>c. (cat_name c, cat_type c)) (seeded_rows now i userId) =
     map (\<lambda>d. (dc_name d, dc_type d)) defaultCategories"
  apply (simp add: seeded_rows_def category_row_def default_input_def case_prod_unfold o_def)
  apply (rule map_over_zip [where f = "\<lambda>d. (dc_name d, dc_type d)"])
  apply simp
  done

lemma catalog_counts:
  "length (filter (\<lambda>t. t = INCOME) (map dc_type defaultCategories)) = 4"
  "length (filter (\<lambda>t. t = EXPENSE) (map dc_type defaultCategories)) = 10"
  "length (filter (\<lambda>t. t = TRANSFER) (map dc_type defaultCategories)) = 1"
  "distinct (map dc_name defaultCategories)"
  by (simp_all add: defaultCategories_def)

lemma syncUser_created_world:
  assumes absent: "find (\<lambda>v. usr_auth0Id v = a) (users w) = None"
    and s: "syncUser now a p w = (Inr u, w')"
  shows "\<exists>w2. users w2 = users w @ [u] \<and> categories w2 = categories w \<and>
              idSupply w2 = Suc (idSupply w) \<and> faults w2 = tl (tl (faults w)) \<and>
              logs w2 = logs w @ [CreatedNewUser (usr_email u)] \<and>
              currencies w2 = currencies w \<and> exchangeRates w2 = exchangeRates w \<and>
              usr_id u = idSupply w \<and> (\<forall>v \<in> set (users w). usr_id v \<noteq> usr_id u) \<and>
              w' = snd (createDefaultCategories now (usr_id u) w2)"
proof -
  let ?d = "\<lparr>uc_auth0Id = a,
             uc_email = js_or_str (claim_email p) (a @ ''@wisecalk.com''),
             uc_firstName = js_or (claim_given_name p) (name_first (claim_name p)),
             uc_lastName = js_or (claim_family_name p) (name_rest (claim_name p)),
             uc_timezone = js_or_str (claim_zoneinfo p) ''UTC'',
             uc_locale = js_or_str (claim_locale p) ''en-US''\<rparr>"
  obtain rf w1 where f: "user_findUnique a w = (rf, w1)"
    by (cases "user_findUnique a w")
  note fr = user_findUnique_result [OF f] and ff = user_findUnique_faults [OF f]
  from s f have "\<exists>x. rf = Inr x"
    by (cases rf) (auto simp: syncUser_lookup_fails)
  with fr absent have x: "rf = Inr None" by auto
  obtain rc w2 where c: "user_create now ?d w1 = (rc, w2)"
    by (cases "user_create now ?d w1")
  from s f x c have rc: "rc = Inr u"
    and w': "w' = snd (createDefaultCategories now (usr_id u)
                         (w2\<lparr>logs := logs w2 @ [CreatedNewUser (usr_email u)]\<rparr>))"
    by (cases rc; simp add: syncUser_create_branch)+
  note co = user_create_ok [OF c [unfolded rc]] and cf = user_create_faults [OF c]
  let ?w2 = "w2\<lparr>logs := logs w2 @ [CreatedNewUser (usr_email u)]\<rparr>"
  from co fr have 1: "users ?w2 = users w @ [u]" "categories ?w2 = categories w"
    "idSupply ?w2 = Suc (idSupply w)" "logs ?w2 = logs w @ [CreatedNewUser (usr_email u)]"
    "currencies ?w2 = currencies w" "exchangeRates ?w2 = exchangeRates w"
    "usr_id u = idSupply w"
    by simp_all
  from co fr have 2: "\<forall>v \<in> set (users w). usr_id v \<noteq> usr_id u" by metis
  from cf ff have 3: "faults ?w2 = tl (tl (faults w))" by simp
  from 1 2 3 w' show ?thesis by blast
qed

lemma filter_over_zip:
  "length xs = length ys \<Longrightarrow>
     length (filter (\<lambda>x. P (snd x)) (zip xs ys)) = length (filter P ys)"
  by (induction xs ys rule: list_induct2) auto

lemma seeded_rows_named:
  "length (filter (\<lambda>c. cat_userId c = userId \<and> cat_name c = n \<and> cat_parentId c = None)
             (seeded_rows now i userId)) =
   length (filter (\<lambda>d. dc_name d = n) defaultCategories)"
  apply (simp add: seeded_rows_def filter_map o_def category_row_def default_input_def
      case_prod_unfold)
  apply (rule filter_over_zip [where P = "\<lambda>d. dc_name d = n"])
  apply simp
  done

lemma seeded_rows_counts:
  "length (seeded_rows now i userId) = 15"
  "length (filter (\<lambda>c. cat_type c = INCOME) (seeded_rows now i userId)) = 4"
  "length (filter (\<lambda>c. cat_type c = EXPENSE) (seeded_rows now i userId)) = 10"
  "length (filter (\<lambda>c. cat_type c = TRANSFER) (seeded_rows now i userId)) = 1"
  "distinct (map cat_name (seeded_rows now i userId))"
proof -
  note cat = seeded_rows_catalog [of now i userId]
  have names: "map cat_name (seeded_rows now i userId) = map dc_name defaultCategories"
    using arg_cong [OF cat, of "map fst"] by (simp add: o_def)
  have types: "map cat_type (seeded_rows now i userId) = map dc_type defaultCategories"
    using arg_cong [OF cat, of "map snd"] by (simp add: o_def)
  have cnt: "\<And>t. length (filter (\<lambda>c. cat_type c = t) (seeded_rows now i userId)) =
                 length (filter (\<lambda>x. x = t) (map cat_type (seeded_rows now i userId)))"
    by (simp add: filter_map o_def)
  show "length (seeded_rows now i userId) = 15"
    using arg_cong [OF names, of length] by (simp add: length_defaultCategories)
  show "length (filter (\<lambda>c. cat_type c = INCOME) (seeded_rows now i userId)) = 4"
    "length (filter (\<lambda>c. cat_type c = EXPENSE) (seeded_rows now i userId)) = 10"
    "length (filter (\<lambda>c. cat_type c = TRANSFER) (seeded_rows now i userId)) = 1"
    by (simp_all only: cnt types catalog_counts)
  show "distinct (map cat_name (seeded_rows now i userId))"
    by (simp only: names catalog_counts)
qed

lemma lovelace_categories:
  "categories_of (usr_id lovelace) lovelace_store = seeded_rows 5 1 0"
  using seeded_rows_owner [of 5 1 0]
  by (simp add: categories_of_def lovelace_store_def lovelace_def filter_id_conv)

lemma createMany_tables:
  "category_createMany_skipDuplicates now ds w = (Inl e, w') \<Longrightarrow>
     users w' = users w \<and> categories w' = categories w \<and> faults w' = tl (faults w)"
  unfolding category_createMany_skipDuplicates_def bind_def
  by (auto split: prod.splits sum.splits if_splits dest: store_call_tables store_call_faults)

lemma createDefaultCategories_swallows:
  "category_createMany_skipDuplicates now (map (default_input i) defaultCategories) w = (Inl e, w') \<Longrightarrow>
     createDefaultCategories now i w = (Inr (), w'\<lparr>logs := logs w' @ [FailedDefaultCategories i e]\<rparr>)"
  by (simp add: createDefaultCategories_def catch_def bind_def logger_def)

lemma user_update_faults:
  "user_update now i d w = (r, w1) \<Longrightarrow> faults w1 = tl (faults w)"
  unfolding user_update_def bind_def
  by (auto split: prod.splits sum.splits if_splits option.splits dest: store_call_faults)
















lemma lovelace_same_token:
  "syncUser 9 ''auth0|lovelace'' lovelace_payload lovelace_store =
     (Inr (lovelace\<lparr>usr_updatedAt := 9\<rparr>),
      lovelace_store\<lparr>users := [lovelace\<lparr>usr_updatedAt := 9\<rparr>]\<rparr>)"
  by (simp add: syncUser_def catch_def bind_def ret_def user_findUnique_def user_update_def
      store_call_def lovelace_store_def lovelace_def lovelace_payload_def bare_payload_def
      apply_user_update_def js_or_def js_or_str_def pg_text_def pg_text_opt_def)

lemma insert_skipDuplicates_prefix:
  "\<exists>new. fst (insert_skipDuplicates now ds rows k) = rows @ new \<and>
         (\<forall>c \<in> set new. \<exists>d \<in> set ds. cat_userId c = ci_userId d)"
proof (induction ds arbitrary: rows k)
  case Nil
  then show ?case by simp
next
  case (Cons d ds)
  show ?case
  proof (cases "category_conflict (category_row now k d) rows")
    case True
    with Cons.IH [of rows "Suc k"] show ?thesis by auto
  next
    case False
    from Cons.IH [of "rows @ [category_row now k d]" "Suc k"]
    obtain new where n: "fst (insert_skipDuplicates now ds (rows @ [category_row now k d]) (Suc k)) =
        (rows @ [category_row now k d]) @ new"
      "\<forall>c \<in> set new. \<exists>d \<in> set ds. cat_userId c = ci_userId d"
      by blast
    have "cat_userId (category_row now k d) = ci_userId d"
      by (simp add: category_row_def)
    with n False show ?thesis
      by (intro exI [of _ "category_row now k d # new"]) auto
  qed
qed

lemma insert_skipDuplicates_distinct:
  "distinct (map cat_key rows) \<Longrightarrow>
   distinct (map (\<lambda>d. (ci_userId d, ci_name d)) ds) \<Longrightarrow>
   \<forall>c \<in> set rows. \<forall>d \<in> set ds. (cat_userId c, cat_name c) \<noteq> (ci_userId d, ci_name d) \<Longrightarrow>
   distinct (map cat_key (fst (insert_skipDuplicates now ds rows k)))"
proof (induction ds arbitrary: rows k)
  case Nil
  then show ?case by simp
next
  case (Cons d ds)
  show ?case
  proof (cases "category_conflict (category_row now k d) rows")
    case True
    from Cons.prems have "distinct (map cat_key (fst (insert_skipDuplicates now ds rows (Suc k))))"
      by (intro Cons.IH) auto
    with True show ?thesis by simp
  next
    case False
    let ?row = "category_row now k d"
    have key: "cat_userId ?row = ci_userId d" "cat_name ?row = ci_name d"
      by (simp_all add: category_row_def)
    from Cons.prems(3) key have "cat_key ?row \<notin> set (map cat_key rows)"
      by (auto simp: cat_key_def)
    with Cons.prems(1) have 1: "distinct (map cat_key (rows @ [?row]))"
      by simp
    from Cons.prems(2) have 2: "distinct (map (\<lambda>d. (ci_userId d, ci_name d)) ds)"
      and fresh: "\<forall>e \<in> set ds. (ci_userId d, ci_name d) \<noteq> (ci_userId e, ci_name e)"
      by auto
    from Cons.prems(3) fresh key
    have 3: "\<forall>c \<in> set (rows @ [?row]). \<forall>e \<in> set ds.
               (cat_userId c, cat_name c) \<noteq> (ci_userId e, ci_name e)"
      by auto
    from Cons.IH [OF 1 2 3] False show ?thesis by simp
  qed
qed

lemma defaultCategories_names: "distinct (map dc_name defaultCategories)"
  by (simp add: defaultCategories_def)

lemma default_input_keys:
  "distinct (map (\<lambda>d. (ci_userId d, ci_name d)) (map (default_input i) defaultCategories))"
proof -
  have "map (\<lambda>d. (ci_userId d, ci_name d)) (map (default_input i) defaultCategories) =
        map (\<lambda>n. (i, n)) (map dc_name defaultCategories)"
    by (simp add: default_input_def)
  moreover have "inj (\<lambda>n :: string. (i, n))"
    by (simp add: inj_on_def)
  ultimately show ?thesis
    using defaultCategories_names by (simp only: distinct_map) (auto intro: inj_on_subset)
qed

lemma createDefaultCategories_categories:
  assumes s: "createDefaultCategories now i w = (r, w')"
  shows "users w' = users w \<and>
         (categories w' = categories w \<or>
          categories w' = fst (insert_skipDuplicates now (map (default_input i) defaultCategories)
                                 (categories w) (idSupply w)) \<and>
          (\<forall>c \<in> set (drop (length (categories w)) (categories w')).
              \<exists>u \<in> set (users w). usr_id u = cat_userId c))"
  using s
  unfolding createDefaultCategories_def category_createMany_skipDuplicates_def catch_def
    bind_def logger_def
  by (auto split: prod.splits sum.splits if_splits dest: store_call_tables)

lemma createDefaultCategories_integrity:
  assumes fk: "categories_user_id_fkey w"
    and keys: "distinct (map cat_key (categories w))"
    and new: "\<forall>c \<in> set (categories w). cat_userId c \<noteq> i"
    and s: "createDefaultCategories now i w = (r, w')"
  shows "categories_user_id_fkey w' \<and> distinct (map cat_key (categories w'))"
proof -
  let ?ds = "map (default_input i) defaultCategories"
  note c = createDefaultCategories_categories [OF s]
  from c consider (same) "users w' = users w" "categories w' = categories w"
    | (seeded) "users w' = users w"
        "categories w' = fst (insert_skipDuplicates now ?ds (categories w) (idSupply w))"
        "\<forall>c \<in> set (drop (length (categories w)) (categories w')).
              \<exists>u \<in> set (users w). usr_id u = cat_userId c"
    by blast
  then show ?thesis
  proof cases
    case same
    with fk keys show ?thesis
      by (simp add: categories_user_id_fkey_def)
  next
    case seeded
    from insert_skipDuplicates_prefix [of now ?ds "categories w" "idSupply w"] seeded(2)
    obtain new where n: "categories w' = categories w @ new"
      by auto
    with seeded(3) have "\<forall>c \<in> set new. \<exists>u \<in> set (users w). usr_id u = cat_userId c"
      by simp
    with fk n seeded(1) have 1: "categories_user_id_fkey w'"
      by (auto simp: categories_user_id_fkey_def)
    from new have "\<forall>c \<in> set (categories w). \<forall>d \<in> set ?ds.
        (cat_userId c, cat_name c) \<noteq> (ci_userId d, ci_name d)"
      by (auto simp: default_input_def)
    from insert_skipDuplicates_distinct [OF keys default_input_keys this, of now "idSupply w"]
      seeded(2)
    have "distinct (map cat_key (categories w'))"
      by simp
    with 1 show ?thesis by simp
  qed
qed

lemma syncUser_integrity:
  assumes pk: "users_pkey w"
    and fk: "categories_user_id_fkey w"
    and keys: "distinct (map cat_key (categories w))"
    and s: "syncUser now a p w = (r, w')"
  shows "users_pkey w' \<and> categories_user_id_fkey w' \<and> distinct (map cat_key (categories w'))"
proof -
  have pk': "users_pkey w'"
    using pk s by (rule syncUser_pkey)
  have "categories_user_id_fkey w' \<and> distinct (map cat_key (categories w'))"
  proof (cases "find (\<lambda>v. usr_auth0Id v = a) (users w)")
    case (Some old)
    from syncUser_present_frame [OF pk Some s]
    have ids: "map usr_id (users w') = map usr_id (users w)" and cs: "categories w' = categories w"
      by blast+
    have mem: "\<And>i us. (\<exists>u \<in> set us. usr_id u = i) = (i \<in> set (map usr_id us))"
      by force
    have "\<And>i. (\<exists>u \<in> set (users w'). usr_id u = i) = (\<exists>u \<in> set (users w). usr_id u = i)"
      unfolding mem ids ..
    with fk keys cs show ?thesis
      by (simp add: categories_user_id_fkey_def)
  next
    case None
    show ?thesis
    proof (cases r)
      case (Inl e)
      with syncUser_absent [OF None s] have "users w' = users w" "categories w' = categories w"
        by auto
      with fk keys show ?thesis
        by (simp add: categories_user_id_fkey_def)
    next
      case (Inr u)
      with s have "syncUser now a p w = (Inr u, w')" by simp
      from syncUser_created_world [OF None this]
      obtain w2 where w2: "users w2 = users w @ [u]" "categories w2 = categories w"
        "\<forall>v \<in> set (users w). usr_id v \<noteq> usr_id u"
        "w' = snd (createDefaultCategories now (usr_id u) w2)"
        by blast
      from fk w2(1,2) have fk2: "categories_user_id_fkey w2"
        by (auto simp: categories_user_id_fkey_def)
      from keys w2(2) have keys2: "distinct (map cat_key (categories w2))"
        by simp
      from fk w2(2,3) have new: "\<forall>c \<in> set (categories w2). cat_userId c \<noteq> usr_id u"
        by (auto simp: categories_user_id_fkey_def)
      from w2(4) have "createDefaultCategories now (usr_id u) w2 =
          (fst (createDefaultCategories now (usr_id u) w2), w')"
        by simp
      from createDefaultCategories_integrity [OF fk2 keys2 new this] show ?thesis .
    qed
  qed
  with pk' show ?thesis by simp
qed

lemma logins_integrity:
  "users_pkey w \<Longrightarrow> categories_user_id_fkey w \<Longrightarrow> distinct (map cat_key (categories w)) \<Longrightarrow>
     users_pkey (logins ls w) \<and> categories_user_id_fkey (logins ls w) \<and>
     distinct (map cat_key (categories (logins ls w)))"
proof (induction ls arbitrary: w)
  case Nil
  then show ?case by simp
next
  case (Cons l ls)
  obtain now a p where l: "l = (now, a, p)"
    by (cases l)
  have "syncUser now a p w = (fst (syncUser now a p w), snd (syncUser now a p w))"
    by simp
  from syncUser_integrity [OF Cons.prems this]
  have "users_pkey (logins ls (snd (syncUser now a p w))) \<and>
        categories_user_id_fkey (logins ls (snd (syncUser now a p w))) \<and>
        distinct (map cat_key (categories (logins ls (snd (syncUser now a p w)))))"
    by (intro Cons.IH) simp_all
  with l show ?case by simp
qed

lemma distinct_key_once:
  "distinct (map f xs) \<Longrightarrow> length (filter (\<lambda>x. f x = k) xs) \<le> 1"
  by (induction xs) (auto simp: filter_empty_conv image_iff)

lemma top_level_once:
  assumes "distinct (map cat_key rows)"
  shows "length (filter (\<lambda>c. cat_userId c = i \<and> cat_name c = n \<and> cat_parentId c = None) rows) \<le> 1"
proof -
  have "(\<lambda>c. cat_userId c = i \<and> cat_name c = n \<and> cat_parentId c = None) =
        (\<lambda>c. cat_key c = (i, n, None))"
    by (auto simp: cat_key_def)
  with distinct_key_once [OF assms, of "(i, n, None)"] show ?thesis
    by simp
qed

lemma lovelace_logins:
  "logins [(5, ''auth0|lovelace'', lovelace_payload), (9, ''auth0|lovelace'', lovelace_payload)]
     (empty_store\<lparr>faults := []\<rparr>) =
   lovelace_store\<lparr>users := [lovelace\<lparr>usr_updatedAt := 9\<rparr>]\<rparr>"
proof -
  have "empty_store\<lparr>faults := []\<rparr> = empty_store"
    by (simp add: empty_store_def)
  then show ?thesis
    by (simp add: lovelace_first_login lovelace_same_token)
qed

section \<open>Basic facts about the transactions table\<close>

lemma map_key_unchanged: "(\<And>x. k (g x) = k x) \<Longrightarrow> map k (map g xs) = map k xs"
  by (induction xs) auto

lemma exec_Insert:
  "exec (Insert row) rows = Inr rows' \<Longrightarrow>
     rows' = rows @ [row] \<and> \<not> id_exists (txn_id row) rows \<and>
     (\<forall>t. txn_transferToId row = Some t \<longrightarrow>
        \<not> transfer_taken (txn_id row) t rows \<and> (id_exists t rows \<or> t = txn_id row))"
  by (auto split: if_splits option.splits)

lemma exec_SetTransferTo:
  "exec (SetTransferTo i v) rows = Inr rows' \<Longrightarrow>
     rows' = rows \<and> \<not> id_exists i rows \<or>
     rows' = map (\<lambda>r. if txn_id r = i then r\<lparr>txn_transferToId := v\<rparr> else r) rows \<and>
     (\<forall>t. v = Some t \<longrightarrow> \<not> transfer_taken i t rows \<and> id_exists t rows)"
  by (auto split: if_splits option.splits)

lemma exec_SetId:
  "exec (SetId i j) rows = Inr rows' \<Longrightarrow>
     rows' = rows \<or>
     \<not> id_exists j rows \<and>
     rows' = map (\<lambda>r. r\<lparr>txn_id := (if txn_id r = i then j else txn_id r),
                            txn_transferToId := (if txn_transferToId r = Some i then Some j
                                                 else txn_transferToId r)\<rparr>) rows"
  by (auto split: if_splits)

lemma invariant_map:
  fixes g :: "transaction_row \<Rightarrow> transaction_row"
  assumes pk: "transactions_pkey rows" and fk: "transfer_to_id_fkey rows"
    and key: "transfer_to_id_key rows"
    and gi: "\<And>r. txn_id (g r) = txn_id r"
    and gt: "\<And>r. r \<in> set rows \<Longrightarrow>
               txn_transferToId (g r) = txn_transferToId r \<or> txn_transferToId (g r) = None \<or>
               (txn_id r = i \<and> txn_transferToId (g r) = Some t \<and>
                \<not> transfer_taken i t rows \<and> id_exists t rows)"
  shows "transactions_pkey (map g rows) \<and> transfer_to_id_fkey (map g rows) \<and>
         transfer_to_id_key (map g rows)"
proof (intro conjI)
  have "map txn_id (map g rows) = map txn_id rows"
    by (rule map_key_unchanged) (rule gi)
  with pk show "transactions_pkey (map g rows)"
    by (simp only: transactions_pkey_def)
  have ex: "\<And>t. id_exists t rows \<Longrightarrow> id_exists t (map g rows)"
    unfolding id_exists_def using gi by auto
  show "transfer_to_id_fkey (map g rows)"
    unfolding transfer_to_id_fkey_def
  proof (intro ballI allI impI)
    fix r' u
    assume "r' \<in> set (map g rows)" and s: "txn_transferToId r' = Some u"
    then obtain r where r: "r \<in> set rows" and r': "r' = g r" by auto
    from gt [OF r] s r' have "txn_transferToId r = Some u \<or> (u = t \<and> id_exists t rows)"
      by auto
    with fk r have "id_exists u rows"
      unfolding transfer_to_id_fkey_def by blast
    then show "id_exists u (map g rows)" by (rule ex)
  qed
  show "transfer_to_id_key (map g rows)"
    unfolding transfer_to_id_key_def
  proof (intro ballI impI)
    fix a b
    assume "a \<in> set (map g rows)" "b \<in> set (map g rows)"
      and eq: "txn_transferToId a \<noteq> None \<and> txn_transferToId a = txn_transferToId b"
    then obtain r1 r2 where r1: "r1 \<in> set rows" "a = g r1" and r2: "r2 \<in> set rows" "b = g r2"
      by auto
    from eq have "txn_transferToId (g r1) \<noteq> None"
      "txn_transferToId (g r1) = txn_transferToId (g r2)"
      unfolding r1(2) r2(2) by blast+
    then obtain u where u: "txn_transferToId (g r1) = Some u" "txn_transferToId (g r2) = Some u"
      by (cases "txn_transferToId (g r1)") auto
    from gt [OF r1(1)] u consider (old1) "txn_transferToId r1 = Some u"
      | (new1) "txn_id r1 = i" "u = t" "\<not> transfer_taken i t rows"
      by auto
    then have "txn_id r1 = txn_id r2"
    proof cases
      case old1
      from gt [OF r2(1)] u consider (old2) "txn_transferToId r2 = Some u"
        | (new2) "txn_id r2 = i" "u = t" "\<not> transfer_taken i t rows"
        by auto
      then show ?thesis
      proof cases
        case old2
        with old1 key r1 r2 show ?thesis
          unfolding transfer_to_id_key_def by (metis option.distinct(1))
      next
        case new2
        with old1 r1 show ?thesis
          unfolding transfer_taken_def by auto
      qed
    next
      case new1
      from gt [OF r2(1)] u consider (old2) "txn_transferToId r2 = Some u"
        | (new2) "txn_id r2 = i"
        by auto
      then show ?thesis
      proof cases
        case old2
        with new1 r2 show ?thesis
          unfolding transfer_taken_def by auto
      next
        case new2
        with new1 show ?thesis by simp
      qed
    qed
    then show "txn_id a = txn_id b"
      unfolding r1(2) r2(2) by (simp only: gi)
  qed
qed

lemma exec_SetTransferTo_invariant:
  assumes pk: "transactions_pkey rows" and fk: "transfer_to_id_fkey rows"
    and key: "transfer_to_id_key rows"
    and e: "exec (SetTransferTo i v) rows = Inr rows'"
  shows "transactions_pkey rows' \<and> transfer_to_id_fkey rows' \<and> transfer_to_id_key rows'"
proof -
  define g :: "transaction_row \<Rightarrow> transaction_row"
    where "g = (\<lambda>r. if txn_id r = i then r\<lparr>txn_transferToId := v\<rparr> else r)"
  have gi: "\<And>r. txn_id (g r) = txn_id r" by (simp add: g_def)
  have gv: "\<And>r. txn_transferToId (g r) = (if txn_id r = i then v else txn_transferToId r)"
    by (simp add: g_def)
  from exec_SetTransferTo [OF e]
  consider "rows' = rows"
    | "rows' = map g rows" "\<forall>t. v = Some t \<longrightarrow> \<not> transfer_taken i t rows \<and> id_exists t rows"
    unfolding g_def by blast
  then show ?thesis
  proof cases
    case 1
    with pk fk key show ?thesis by simp
  next
    case 2
    show ?thesis
    proof (cases v)
      case None
      have "\<And>r. r \<in> set rows \<Longrightarrow>
               txn_transferToId (g r) = txn_transferToId r \<or> txn_transferToId (g r) = None \<or>
               (txn_id r = i \<and> txn_transferToId (g r) = Some i \<and>
                \<not> transfer_taken i i rows \<and> id_exists i rows)"
        by (simp add: gv None)
      from invariant_map [OF pk fk key gi this] 2(1) show ?thesis by simp
    next
      case (Some t)
      with 2(2) have "\<not> transfer_taken i t rows" "id_exists t rows" by simp_all
      then have "\<And>r. r \<in> set rows \<Longrightarrow>
               txn_transferToId (g r) = txn_transferToId r \<or> txn_transferToId (g r) = None \<or>
               (txn_id r = i \<and> txn_transferToId (g r) = Some t \<and>
                \<not> transfer_taken i t rows \<and> id_exists t rows)"
        by (simp add: gv Some)
      from invariant_map [OF pk fk key gi this] 2(1) show ?thesis by simp
    qed
  qed
qed

lemma exec_SetColumns_invariant:
  assumes pk: "transactions_pkey rows" and fk: "transfer_to_id_fkey rows"
    and key: "transfer_to_id_key rows"
    and e: "exec (SetColumns i f) rows = Inr rows'"
  shows "transactions_pkey rows' \<and> transfer_to_id_fkey rows' \<and> transfer_to_id_key rows'"
proof -
  define g :: "transaction_row \<Rightarrow> transaction_row"
    where "g = (\<lambda>r. if txn_id r = i
                    then (f r)\<lparr>txn_id := txn_id r, txn_transferToId := txn_transferToId r\<rparr>
                    else r)"
  have gi: "\<And>r. txn_id (g r) = txn_id r" by (simp add: g_def)
  have gv: "\<And>r. txn_transferToId (g r) = txn_transferToId r"
    by (simp add: g_def)
  from e have r: "rows' = map g rows"
    unfolding g_def by simp
  have "\<And>r. r \<in> set rows \<Longrightarrow>
               txn_transferToId (g r) = txn_transferToId r \<or> txn_transferToId (g r) = None \<or>
               (txn_id r = i \<and> txn_transferToId (g r) = Some i \<and>
                \<not> transfer_taken i i rows \<and> id_exists i rows)"
    by (simp add: gv)
  from invariant_map [OF pk fk key gi this] r show ?thesis by simp
qed
lemma exec_Delete_invariant:
  assumes pk: "transactions_pkey rows" and fk: "transfer_to_id_fkey rows"
    and key: "transfer_to_id_key rows"
    and e: "exec (Delete i) rows = Inr rows'"
  shows "transactions_pkey rows' \<and> transfer_to_id_fkey rows' \<and> transfer_to_id_key rows'"
proof -
  define g :: "transaction_row \<Rightarrow> transaction_row"
    where "g = (\<lambda>r. if txn_transferToId r = Some i then r\<lparr>txn_transferToId := None\<rparr> else r)"
  have gi: "\<And>r. txn_id (g r) = txn_id r" by (simp add: g_def)
  have gv: "\<And>r. txn_transferToId (g r) =
                 (if txn_transferToId r = Some i then None else txn_transferToId r)"
    by (simp add: g_def)
  from e have r: "rows' = map g (filter (\<lambda>r. txn_id r \<noteq> i) rows)"
    unfolding g_def by simp
  have mem: "\<And>x. x \<in> set rows' \<longleftrightarrow> (\<exists>r \<in> set rows. txn_id r \<noteq> i \<and> x = g r)"
    unfolding r by auto
  have "map txn_id rows' = filter (\<lambda>k. k \<noteq> i) (map txn_id rows)"
    unfolding r by (induction rows) (simp_all add: gi)
  with pk have 1: "transactions_pkey rows'"
    by (simp add: transactions_pkey_def)
  have 2: "transfer_to_id_fkey rows'"
    unfolding transfer_to_id_fkey_def
  proof (intro ballI allI impI)
    fix x u
    assume "x \<in> set rows'" and s: "txn_transferToId x = Some u"
    then obtain r where r: "r \<in> set rows" "x = g r" unfolding mem by blast
    from s r have tu: "txn_transferToId r = Some u" and ui: "u \<noteq> i"
      by (auto simp: gv split: if_splits)
    from fk r(1) tu obtain y where y: "y \<in> set rows" "txn_id y = u"
      unfolding transfer_to_id_fkey_def id_exists_def by blast
    with ui have "g y \<in> set rows'" unfolding mem by blast
    with y gi show "id_exists u rows'"
      unfolding id_exists_def by metis
  qed
  have 3: "transfer_to_id_key rows'"
    unfolding transfer_to_id_key_def
  proof (intro ballI impI)
    fix a b
    assume "a \<in> set rows'" "b \<in> set rows'"
      and eq: "txn_transferToId a \<noteq> None \<and> txn_transferToId a = txn_transferToId b"
    then obtain r1 r2 where r1: "r1 \<in> set rows" "a = g r1" and r2: "r2 \<in> set rows" "b = g r2"
      unfolding mem by blast
    from eq have "txn_transferToId (g r1) \<noteq> None"
      "txn_transferToId (g r1) = txn_transferToId (g r2)"
      unfolding r1(2) r2(2) by blast+
    then have "txn_transferToId r1 \<noteq> None" "txn_transferToId r1 = txn_transferToId r2"
      by (auto simp: gv split: if_splits)
    with key r1(1) r2(1) have "txn_id r1 = txn_id r2"
      unfolding transfer_to_id_key_def by blast
    then show "txn_id a = txn_id b"
      unfolding r1(2) r2(2) by (simp only: gi)
  qed
  from 1 2 3 show ?thesis by simp
qed
lemma exec_Insert_invariant:
  assumes pk: "transactions_pkey rows" and fk: "transfer_to_id_fkey rows"
    and key: "transfer_to_id_key rows"
    and e: "exec (Insert row) rows = Inr rows'"
  shows "transactions_pkey rows' \<and> transfer_to_id_fkey rows' \<and> transfer_to_id_key rows'"
proof -
  from exec_Insert [OF e] have r: "rows' = rows @ [row]"
    and new: "\<not> id_exists (txn_id row) rows"
    and tt: "\<And>t. txn_transferToId row = Some t \<Longrightarrow>
               \<not> transfer_taken (txn_id row) t rows \<and> (id_exists t rows \<or> t = txn_id row)"
    by blast+
  from new have ids: "\<And>x. x \<in> set rows \<Longrightarrow> txn_id x \<noteq> txn_id row"
    unfolding id_exists_def by blast
  have "txn_id row \<notin> txn_id ` set rows"
    using ids by (metis imageE)
  with pk have 1: "transactions_pkey rows'"
    unfolding transactions_pkey_def r by simp
  have ex: "\<And>t. id_exists t rows \<or> t = txn_id row \<Longrightarrow> id_exists t rows'"
    unfolding id_exists_def r by auto
  have 2: "transfer_to_id_fkey rows'"
    unfolding transfer_to_id_fkey_def
  proof (intro ballI allI impI)
    fix x u
    assume "x \<in> set rows'" and s: "txn_transferToId x = Some u"
    then consider "x \<in> set rows" | "x = row" unfolding r by auto
    then have "id_exists u rows \<or> u = txn_id row"
    proof cases
      case 1
      with fk s show ?thesis unfolding transfer_to_id_fkey_def by blast
    next
      case 2
      with tt s show ?thesis by blast
    qed
    then show "id_exists u rows'" by (rule ex)
  qed
  have clash: "\<And>x u. x \<in> set rows \<Longrightarrow> txn_transferToId x = Some u \<Longrightarrow>
                     txn_transferToId row = Some u \<Longrightarrow> False"
  proof -
    fix x u
    assume x: "x \<in> set rows" "txn_transferToId x = Some u" and "txn_transferToId row = Some u"
    from tt [OF this(3)] have "\<not> transfer_taken (txn_id row) u rows" by simp
    with x ids [OF x(1)] show False unfolding transfer_taken_def by blast
  qed
  have 3: "transfer_to_id_key rows'"
    unfolding transfer_to_id_key_def
  proof (intro ballI impI)
    fix a b
    assume a: "a \<in> set rows'" and b: "b \<in> set rows'"
      and eq: "txn_transferToId a \<noteq> None \<and> txn_transferToId a = txn_transferToId b"
    from eq have na: "txn_transferToId a \<noteq> None"
      and ab: "txn_transferToId a = txn_transferToId b"
      by blast+
    from na obtain u where ua: "txn_transferToId a = Some u"
      by (cases "txn_transferToId a") auto
    with ab have ub: "txn_transferToId b = Some u" by simp
    note u = ua ub
    from a b consider "a \<in> set rows" "b \<in> set rows" | "a = row" "b = row"
      | "a \<in> set rows" "b = row" | "a = row" "b \<in> set rows"
      unfolding r by auto
    then show "txn_id a = txn_id b"
    proof cases
      case 1
      with key eq show ?thesis unfolding transfer_to_id_key_def by blast
    next
      case 2
      then show ?thesis by simp
    next
      case 3
      with clash u show ?thesis by blast
    next
      case 4
      with clash u show ?thesis by blast
    qed
  qed
  from 1 2 3 show ?thesis by simp
qed

lemma exec_SetId_invariant:
  assumes pk: "transactions_pkey rows" and fk: "transfer_to_id_fkey rows"
    and key: "transfer_to_id_key rows"
    and e: "exec (SetId i j) rows = Inr rows'"
  shows "transactions_pkey rows' \<and> transfer_to_id_fkey rows' \<and> transfer_to_id_key rows'"
proof -
  define ren :: "ident \<Rightarrow> ident" where "ren = (\<lambda>k. if k = i then j else k)"
  define g :: "transaction_row \<Rightarrow> transaction_row"
    where "g = (\<lambda>r. r\<lparr>txn_id := (if txn_id r = i then j else txn_id r),
                            txn_transferToId := (if txn_transferToId r = Some i then Some j
                                                 else txn_transferToId r)\<rparr>)"
  have gi: "\<And>r. txn_id (g r) = ren (txn_id r)" by (simp add: g_def ren_def)
  have gv: "txn_transferToId (g r) = map_option ren (txn_transferToId r)" for r
    by (cases "txn_transferToId r") (auto simp: g_def ren_def)
  from exec_SetId [OF e]
  consider "rows' = rows" | "\<not> id_exists j rows" "rows' = map g rows"
    unfolding g_def by blast
  then show ?thesis
  proof cases
    case 1
    with pk fk key show ?thesis by simp
  next
    case 2
    from 2(1) have nj: "\<And>x. x \<in> set rows \<Longrightarrow> txn_id x \<noteq> j"
      unfolding id_exists_def by blast
    have inj: "\<And>x y. x \<in> set rows \<Longrightarrow> y \<in> set rows \<Longrightarrow> ren (txn_id x) = ren (txn_id y) \<Longrightarrow>
                     txn_id x = txn_id y"
      using nj unfolding ren_def by (metis)
    have m: "map txn_id rows' = map ren (map txn_id rows)"
      unfolding 2(2) by (simp add: gi)
    from inj have "inj_on ren (set (map txn_id rows))"
      unfolding inj_on_def by auto
    with pk have 1: "transactions_pkey rows'"
      unfolding transactions_pkey_def m by (simp add: distinct_map comp_inj_on)
    have 2: "transfer_to_id_fkey rows'"
      unfolding transfer_to_id_fkey_def
    proof (intro ballI allI impI)
      fix x u
      assume "x \<in> set rows'" and s: "txn_transferToId x = Some u"
      then obtain r where r: "r \<in> set rows" "x = g r" unfolding \<open>rows' = map g rows\<close> by auto
      from s r obtain t where t: "txn_transferToId r = Some t" "u = ren t"
        by (auto simp: gv)
      from fk r(1) t(1) obtain y where y: "y \<in> set rows" "txn_id y = t"
        unfolding transfer_to_id_fkey_def id_exists_def by blast
      then have "g y \<in> set rows'" "txn_id (g y) = u"
        unfolding \<open>rows' = map g rows\<close> by (simp_all add: gi t)
      then show "id_exists u rows'"
        unfolding id_exists_def by blast
    qed
    have 3: "transfer_to_id_key rows'"
      unfolding transfer_to_id_key_def
    proof (intro ballI impI)
      fix a b
      assume "a \<in> set rows'" "b \<in> set rows'"
        and eq: "txn_transferToId a \<noteq> None \<and> txn_transferToId a = txn_transferToId b"
      then obtain r1 r2 where r1: "r1 \<in> set rows" "a = g r1" and r2: "r2 \<in> set rows" "b = g r2"
        unfolding \<open>rows' = map g rows\<close> by auto
      from eq have e1: "map_option ren (txn_transferToId r1) \<noteq> None"
        and e2: "map_option ren (txn_transferToId r1) = map_option ren (txn_transferToId r2)"
        unfolding r1(2) r2(2) gv by blast+
      from e1 obtain t1 where t1: "txn_transferToId r1 = Some t1"
        by (cases "txn_transferToId r1") auto
      with e2 obtain t2 where t2: "txn_transferToId r2 = Some t2" "ren t1 = ren t2"
        by (cases "txn_transferToId r2") auto
      note t = t1 t2
      from fk r1(1) r2(1) t obtain y1 y2 where y: "y1 \<in> set rows" "txn_id y1 = t1"
        "y2 \<in> set rows" "txn_id y2 = t2"
        unfolding transfer_to_id_fkey_def id_exists_def by blast
      with inj [of y1 y2] t(3) have "t1 = t2" by simp
      with t key r1(1) r2(1) have "txn_id r1 = txn_id r2"
        unfolding transfer_to_id_key_def by (metis option.distinct(1))
      then show "txn_id a = txn_id b"
        unfolding r1(2) r2(2) by (simp only: gi)
    qed
    from 1 2 3 show ?thesis by simp
  qed
qed

lemma targets_distinct:
  "transactions_pkey rows \<Longrightarrow> transfer_to_id_key rows \<Longrightarrow> distinct (transfer_targets rows)"
proof (induction rows)
  case Nil
  then show ?case by (simp add: transfer_targets_def)
next
  case (Cons r rs)
  from Cons.prems have pk: "transactions_pkey rs"
    by (simp add: transactions_pkey_def)
  from Cons.prems(2) have key: "transfer_to_id_key rs"
    unfolding transfer_to_id_key_def by (meson list.set_intros(2))
  note ih = Cons.IH [OF pk key]
  show ?case
  proof (cases "txn_transferToId r")
    case None
    with ih show ?thesis by (simp add: transfer_targets_def)
  next
    case (Some t)
    have "t \<notin> set (transfer_targets rs)"
    proof
      assume "t \<in> set (transfer_targets rs)"
      then obtain r2 where r2: "r2 \<in> set rs" "txn_transferToId r2 = Some t"
        by (auto simp: transfer_targets_def List.map_filter_def)
      with Cons.prems(2) Some have "txn_id r = txn_id r2"
        unfolding transfer_to_id_key_def by (metis list.set_intros(1,2) option.distinct(1))
      with Cons.prems(1) r2 show False
        by (auto simp: transactions_pkey_def)
    qed
    with ih Some show ?thesis by (simp add: transfer_targets_def)
  qed
qed

lemma same_id_same_row:
  "transactions_pkey rows \<Longrightarrow> a \<in> set rows \<Longrightarrow> b \<in> set rows \<Longrightarrow> txn_id a = txn_id b \<Longrightarrow>
     a = b"
  by (auto simp: transactions_pkey_def distinct_map inj_on_def)

lemma exec_Delete_rows:
  "exec (Delete i) rows = Inr rows' \<Longrightarrow>
     map txn_id rows' = filter (\<lambda>k. k \<noteq> i) (map txn_id rows) \<and>
     (\<forall>r \<in> set rows. txn_id r \<noteq> i \<and> txn_transferToId r = Some i \<longrightarrow>
        r\<lparr>txn_transferToId := None\<rparr> \<in> set rows') \<and>
     (\<forall>r \<in> set rows. txn_id r \<noteq> i \<and> txn_transferToId r \<noteq> Some i \<longrightarrow> r \<in> set rows') \<and>
     (\<forall>x \<in> set rows'. txn_transferToId x \<noteq> Some i)"
proof -
  define g :: "transaction_row \<Rightarrow> transaction_row"
    where "g = (\<lambda>r. if txn_transferToId r = Some i then r\<lparr>txn_transferToId := None\<rparr> else r)"
  assume "exec (Delete i) rows = Inr rows'"
  then have r: "rows' = map g (filter (\<lambda>r. txn_id r \<noteq> i) rows)"
    unfolding g_def by simp
  have gi: "\<And>r. txn_id (g r) = txn_id r" by (simp add: g_def)
  have gv: "\<And>r. txn_transferToId (g r) \<noteq> Some i" by (simp add: g_def)
  have g1: "\<And>r. txn_transferToId r = Some i \<Longrightarrow> g r = r\<lparr>txn_transferToId := None\<rparr>"
    by (simp add: g_def)
  have g2: "\<And>r. txn_transferToId r \<noteq> Some i \<Longrightarrow> g r = r"
    by (simp add: g_def)
  have mem: "\<And>x. x \<in> set rows \<Longrightarrow> txn_id x \<noteq> i \<Longrightarrow> g x \<in> set rows'"
    unfolding r by simp
  have 1: "map txn_id rows' = filter (\<lambda>k. k \<noteq> i) (map txn_id rows)"
    unfolding r by (induction rows) (simp_all add: gi)
  have 2: "\<forall>r \<in> set rows. txn_id r \<noteq> i \<and> txn_transferToId r = Some i \<longrightarrow>
        r\<lparr>txn_transferToId := None\<rparr> \<in> set rows'"
    using mem g1 by metis
  have 3: "\<forall>r \<in> set rows. txn_id r \<noteq> i \<and> txn_transferToId r \<noteq> Some i \<longrightarrow> r \<in> set rows'"
    using mem g2 by metis
  have 4: "\<forall>x \<in> set rows'. txn_transferToId x \<noteq> Some i"
    unfolding r using gv by auto
  from 1 2 3 4 show ?thesis by (intro conjI)
qed

lemma exec_invariant:
  assumes "transactions_pkey rows \<and> transfer_to_id_fkey rows \<and> transfer_to_id_key rows"
    and "exec s rows = Inr rows'"
  shows "transactions_pkey rows' \<and> transfer_to_id_fkey rows' \<and> transfer_to_id_key rows'"
proof -
  from assms(1) have pk: "transactions_pkey rows" and fk: "transfer_to_id_fkey rows"
    and key: "transfer_to_id_key rows"
    by simp_all
  show ?thesis
  proof (cases s)
    case (Insert row)
    with assms(2) have "exec (Insert row) rows = Inr rows'" by simp
    then show ?thesis by (rule exec_Insert_invariant [OF pk fk key])
  next
    case (SetTransferTo i v)
    with assms(2) have "exec (SetTransferTo i v) rows = Inr rows'" by simp
    then show ?thesis by (rule exec_SetTransferTo_invariant [OF pk fk key])
  next
    case (SetId i j)
    with assms(2) have "exec (SetId i j) rows = Inr rows'" by simp
    then show ?thesis by (rule exec_SetId_invariant [OF pk fk key])
  next
    case (SetColumns i f)
    with assms(2) have "exec (SetColumns i f) rows = Inr rows'" by simp
    then show ?thesis by (rule exec_SetColumns_invariant [OF pk fk key])
  next
    case (Delete i)
    with assms(2) have "exec (Delete i) rows = Inr rows'" by simp
    then show ?thesis by (rule exec_Delete_invariant [OF pk fk key])
  qed
qed

lemma run_invariant:
  "transactions_pkey rows \<and> transfer_to_id_fkey rows \<and> transfer_to_id_key rows \<Longrightarrow>
     transactions_pkey (run ss rows) \<and> transfer_to_id_fkey (run ss rows) \<and>
     transfer_to_id_key (run ss rows)"
proof (induction ss arbitrary: rows)
  case Nil
  then show ?case by simp
next
  case (Cons s ss)
  show ?case
  proof (cases "exec s rows")
    case (Inl e)
    with Cons.IH [OF Cons.prems] show ?thesis by simp
  next
    case (Inr rows')
    from exec_invariant [OF Cons.prems Inr] have "transactions_pkey rows' \<and>
      transfer_to_id_fkey rows' \<and> transfer_to_id_key rows'" .
    from Cons.IH [OF this] Inr show ?thesis by simp
  qed
qed

lemma empty_invariant:
  "transactions_pkey [] \<and> transfer_to_id_fkey [] \<and> transfer_to_id_key []"
  by (simp add: transactions_pkey_def transfer_to_id_fkey_def transfer_to_id_key_def)

section \<open>The database-health check\<close>

text \<open>
  C3. \<^verbatim>\<open>getDbHealth\<close> never throws. When the user count fails, or the user count
  succeeds and the currency count fails, with error \<open>e\<close>, it returns the object
  \<^verbatim>\<open>{status: "error", database: {connected: false, error: e.message}}\<close> (with the
  timestamp and the fixed message); when both counts succeed it returns status
  \<^verbatim>\<open>"ok"\<close> with \<^verbatim>\<open>connected: true\<close> and the number of rows of the two tables.
\<close>

theorem getDbHealth_structured:
  "(\<exists>h. fst (getDbHealth now w) = Inr h) \<and>
   (\<forall>e w1. user_count w = (Inl e, w1) \<longrightarrow>
      getDbHealth now w =
        (Inr \<lparr>h_status = ''error'', h_timestamp = now,
              h_database = \<lparr>db_connected = False, db_users = None, db_currencies = None,
                             db_error = Some (message e)\<rparr>,
              h_message = ''Database connection failed!''\<rparr>, w1)) \<and>
   (\<forall>n w1 e w2. user_count w = (Inr n, w1) \<and> currency_count w1 = (Inl e, w2) \<longrightarrow>
      getDbHealth now w =
        (Inr \<lparr>h_status = ''error'', h_timestamp = now,
              h_database = \<lparr>db_connected = False, db_users = None, db_currencies = None,
                             db_error = Some (message e)\<rparr>,
              h_message = ''Database connection failed!''\<rparr>, w2)) \<and>
   (\<forall>n w1 m w2. user_count w = (Inr n, w1) \<and> currency_count w1 = (Inr m, w2) \<longrightarrow>
      n = length (users w) \<and> m = length (currencies w) \<and>
      getDbHealth now w =
        (Inr \<lparr>h_status = ''ok'', h_timestamp = now,
              h_database = \<lparr>db_connected = True, db_users = Some (length (users w)),
                             db_currencies = Some (length (currencies w)), db_error = None\<rparr>,
              h_message = ''Database connection is healthy!''\<rparr>, w2))"
  unfolding getDbHealth_def user_count_def currency_count_def bind_def catch_def ret_def
    store_call_def
  by (auto split: list.splits option.splits prod.splits sum.splits)

text \<open>
  The store answers the first count and drops the connection at the second: the check
  returns the failure object carrying the driver's message.
\<close>

theorem getDbHealth_structured_witness:
  "getDbHealth 7 \<lparr>users = [], categories = [], currencies = [], exchangeRates = [],
                   idSupply = 0, faults = [None, Some ''connection refused''], logs = []\<rparr> =
     (Inr \<lparr>h_status = ''error'', h_timestamp = 7,
           h_database = \<lparr>db_connected = False, db_users = None, db_currencies = None,
                          db_error = Some ''connection refused''\<rparr>,
           h_message = ''Database connection failed!''\<rparr>,
      \<lparr>users = [], categories = [], currencies = [], exchangeRates = [],
       idSupply = 0, faults = [], logs = []\<rparr>)"
  using getDbHealth_structured [of 7 "\<lparr>users = [], categories = [], currencies = [],
    exchangeRates = [], idSupply = 0, faults = [None, Some ''connection refused''], logs = []\<rparr>"]
  by (simp add: user_count_def currency_count_def bind_def store_call_def)

section \<open>Token validation\<close>

text \<open>
  C9. When the \<^verbatim>\<open>sub\<close> claim is absent or empty, \<^verbatim>\<open>validate\<close> throws
  \<^verbatim>\<open>UnauthorizedException\<close> and the store is exactly as before: no call was made, no
  line logged. When the payload has a \<^verbatim>\<open>sub\<close>, \<^verbatim>\<open>validate\<close> runs the
  synchronization once; an error of the synchronization is its error, and what it
  returns otherwise is the session with the six fields \<^verbatim>\<open>userId\<close>, \<^verbatim>\<open>auth0Id\<close>,
  \<^verbatim>\<open>email\<close>, \<^verbatim>\<open>roles\<close>, \<^verbatim>\<open>permissions\<close>, \<^verbatim>\<open>scope\<close>, the roles and
  permissions being the empty list when their claims are missing.
\<close>

theorem validate_session:
  "(\<not> truthy (claim_sub p) \<longrightarrow>
      validate now p w = (Inl (UnauthorizedException ''Invalid token structure''), w)) \<and>
   (\<forall>sub. claim_sub p = Some sub \<and> sub \<noteq> [] \<longrightarrow>
      (\<forall>e w'. syncUser now sub p w = (Inl e, w') \<longrightarrow> validate now p w = (Inl e, w')) \<and>
      (\<forall>u w'. syncUser now sub p w = (Inr u, w') \<longrightarrow>
         validate now p w =
           (Inr \<lparr>sess_userId = usr_id u, sess_auth0Id = sub, sess_email = claim_email p,
                 sess_roles = (case claim_roles p of None \<Rightarrow> [] | Some rs \<Rightarrow> rs),
                 sess_permissions = (case claim_permissions p of None \<Rightarrow> [] | Some ps \<Rightarrow> ps),
                 sess_scope = claim_scope p\<rparr>, w')))"
  by (cases "claim_sub p")
     (auto simp: validate_def throw_def bind_def ret_def js_or_list_def)

text \<open>
  A token with an empty subject is rejected and the store is untouched; a token of Ada with
  no roles and no permissions claim yields her session with both lists empty.
\<close>

theorem validate_session_witness:
  "validate 2 (bare_payload '''') ada_store =
     (Inl (UnauthorizedException ''Invalid token structure''), ada_store) \<and>
   validate 2 (bare_payload ''auth0|ada'') ada_store =
     (Inr \<lparr>sess_userId = 0, sess_auth0Id = ''auth0|ada'', sess_email = None,
           sess_roles = [], sess_permissions = [], sess_scope = None\<rparr>,
      ada_store\<lparr>users := [ada\<lparr>usr_updatedAt := 2\<rparr>]\<rparr>)"
  using validate_session [of "bare_payload ''''" 2 ada_store]
    validate_session [of "bare_payload ''auth0|ada''" 2 ada_store] ada_second_login
  by (simp add: bare_payload_def ada_def)

section \<open>First login\<close>



section \<open>Subsequent logins\<close>

text \<open>
  C10, as the code has it. On a login of an existing user (in a table that satisfies its
  primary key) the update keeps, for each of email, first name, last name, timezone and
  locale, the stored value whenever the claim is absent or empty, and takes the claim
  otherwise; \<^verbatim>\<open>updated_at\<close> becomes the time of the update; every other column of the
  row (id, external id, creation and deletion time), every other row and every other table
  are as before.
\<close>

theorem syncUser_update_keeps_fields:
  assumes pk: "users_pkey w"
    and found: "find (\<lambda>v. usr_auth0Id v = a) (users w) = Some old"
    and s: "syncUser now a p w = (Inr u, w')"
  shows "u = old\<lparr>usr_email := (case claim_email p of None \<Rightarrow> usr_email old
                                | Some s \<Rightarrow> if s \<noteq> [] then s else usr_email old),
                  usr_firstName := (if truthy (claim_given_name p) then claim_given_name p
                                    else usr_firstName old),
                  usr_lastName := (if truthy (claim_family_name p) then claim_family_name p
                                   else usr_lastName old),
                  usr_timezone := (case claim_zoneinfo p of None \<Rightarrow> usr_timezone old
                                   | Some s \<Rightarrow> if s \<noteq> [] then s else usr_timezone old),
                  usr_locale := (case claim_locale p of None \<Rightarrow> usr_locale old
                                 | Some s \<Rightarrow> if s \<noteq> [] then s else usr_locale old),
                  usr_updatedAt := now\<rparr> \<and>
         users w' = map (\<lambda>v. if usr_id v = usr_id old then u else v) (users w) \<and>
         categories w' = categories w \<and> currencies w' = currencies w \<and>
         exchangeRates w' = exchangeRates w \<and> logs w' = logs w"
proof -
  let ?d = "\<lparr>uu_email = js_or_str (claim_email p) (usr_email old),
             uu_firstName = js_or (claim_given_name p) (usr_firstName old),
             uu_lastName = js_or (claim_family_name p) (usr_lastName old),
             uu_timezone = js_or_str (claim_zoneinfo p) (usr_timezone old),
             uu_locale = js_or_str (claim_locale p) (usr_locale old)\<rparr>"
  from syncUser_present [OF pk found s]
  have u: "u = apply_user_update now ?d old"
    and us: "users w' = map (\<lambda>v. if usr_id v = usr_id old then apply_user_update now ?d v else v)
                          (users w)"
    and rest: "categories w' = categories w" "currencies w' = currencies w"
      "exchangeRates w' = exchangeRates w" "logs w' = logs w"
    by auto
  from found have mem: "old \<in> set (users w)"
    by (simp add: find_Some_mem)
  from pk mem have "map (\<lambda>v. if usr_id v = usr_id old then apply_user_update now ?d v else v)
                      (users w) =
                    map (\<lambda>v. if usr_id v = usr_id old then apply_user_update now ?d old else v)
                      (users w)"
    unfolding users_pkey_def by (rule map_replace_key)
  with us u have "users w' = map (\<lambda>v. if usr_id v = usr_id old then u else v) (users w)"
    by simp
  moreover have "u = old\<lparr>usr_email := (case claim_email p of None \<Rightarrow> usr_email old
                                | Some s \<Rightarrow> if s \<noteq> [] then s else usr_email old),
                  usr_firstName := (if truthy (claim_given_name p) then claim_given_name p
                                    else usr_firstName old),
                  usr_lastName := (if truthy (claim_family_name p) then claim_family_name p
                                   else usr_lastName old),
                  usr_timezone := (case claim_zoneinfo p of None \<Rightarrow> usr_timezone old
                                   | Some s \<Rightarrow> if s \<noteq> [] then s else usr_timezone old),
                  usr_locale := (case claim_locale p of None \<Rightarrow> usr_locale old
                                 | Some s \<Rightarrow> if s \<noteq> [] then s else usr_locale old),
                  usr_updatedAt := now\<rparr>"
    unfolding u by (simp add: apply_user_update_def js_or_str_def js_or_def)
  ultimately show ?thesis using rest by blast
qed

text \<open>A login of Ada with a token carrying no profile claim at all.\<close>

theorem syncUser_update_keeps_fields_witness:
  "users_pkey ada_store \<and>
   find (\<lambda>v. usr_auth0Id v = ''auth0|ada'') (users ada_store) = Some ada \<and>
   syncUser 2 ''auth0|ada'' (bare_payload ''auth0|ada'') ada_store =
     (Inr (ada\<lparr>usr_updatedAt := 2\<rparr>), ada_store\<lparr>users := [ada\<lparr>usr_updatedAt := 2\<rparr>]\<rparr>) \<and>
   ada\<lparr>usr_updatedAt := 2\<rparr> =
     ada\<lparr>usr_email := usr_email ada, usr_firstName := usr_firstName ada,
         usr_lastName := usr_lastName ada, usr_timezone := usr_timezone ada,
         usr_locale := usr_locale ada, usr_updatedAt := 2\<rparr> \<and>
   users (ada_store\<lparr>users := [ada\<lparr>usr_updatedAt := 2\<rparr>]\<rparr>) =
     map (\<lambda>v. if usr_id v = usr_id ada then ada\<lparr>usr_updatedAt := 2\<rparr> else v) (users ada_store)"
proof -
  have pk: "users_pkey ada_store"
    by (simp add: users_pkey_def ada_store_def)
  have found: "find (\<lambda>v. usr_auth0Id v = ''auth0|ada'') (users ada_store) = Some ada"
    by (simp add: ada_store_def ada_def)
  from syncUser_update_keeps_fields [OF pk found ada_second_login] pk found ada_second_login
  show ?thesis
    by (simp add: bare_payload_def)
qed

text \<open>
  C10 as stated claims that all columns other than the five are left unchanged. The same
  login, at time 2, of the row written at time 1: the column \<^verbatim>\<open>updated_at\<close> changes.
\<close>

theorem syncUser_update_changes_updatedAt:
  "map usr_updatedAt (users ada_store) = [1] \<and>
   map usr_updatedAt (users (snd (syncUser 2 ''auth0|ada'' (bare_payload ''auth0|ada'') ada_store))) = [2]"
  by (simp add: ada_second_login) (simp add: ada_store_def ada_def)

section \<open>Synchronizing the same identity twice\<close>




section \<open>The default categories of a new user\<close>

text \<open>
  C2, as the code has it. The catalog of \<^verbatim>\<open>createDefaultCategories\<close> has fifteen
  entries. On a first login that returns, against a store that satisfies the owner foreign
  key of the categories and whose identifier supply is unused, and when none of the three
  store calls of the login fails: the categories of the new user are exactly the rows the
  login appended, they carry the names and types of the catalog in order, they are fifteen
  (four income, ten expense, one transfer), and their names are pairwise different.
\<close>

theorem first_login_seeds_catalog:
  assumes fk: "categories_user_id_fkey w"
    and unused: "supply_unused w"
    and absent: "find (\<lambda>v. usr_auth0Id v = a) (users w) = None"
    and up: "\<forall>f \<in> set (take 3 (faults w)). f = None"
    and s: "syncUser now a p w = (Inr u, w')"
  shows "categories w' = categories w @ categories_of (usr_id u) w' \<and>
         map (\<lambda>c. (cat_name c, cat_type c)) (categories_of (usr_id u) w') =
           map (\<lambda>d. (dc_name d, dc_type d)) defaultCategories \<and>
         length (categories_of (usr_id u) w') = 15 \<and>
         length (filter (\<lambda>c. cat_type c = INCOME) (categories_of (usr_id u) w')) = 4 \<and>
         length (filter (\<lambda>c. cat_type c = EXPENSE) (categories_of (usr_id u) w')) = 10 \<and>
         length (filter (\<lambda>c. cat_type c = TRANSFER) (categories_of (usr_id u) w')) = 1 \<and>
         distinct (map cat_name (categories_of (usr_id u) w'))"
proof -
  from syncUser_created_world [OF absent s] obtain w2 where
    w2: "users w2 = users w @ [u]" "categories w2 = categories w"
      "idSupply w2 = Suc (idSupply w)" "faults w2 = tl (tl (faults w))"
    and fresh: "\<forall>v \<in> set (users w). usr_id v \<noteq> usr_id u"
    and w': "w' = snd (createDefaultCategories now (usr_id u) w2)"
    by blast
  from unused w2 have un2: "supply_unused w2"
    by (auto simp: supply_unused_def less_Suc_eq)
  from third_call_up [OF up] w2 have up2: "faults w2 = [] \<or> (\<exists>fs. faults w2 = None # fs)"
    by simp
  from w2 have own: "\<exists>v \<in> set (users w2). usr_id v = usr_id u"
    by simp
  let ?new = "seeded_rows now (idSupply w2) (usr_id u)"
  from createDefaultCategories_inserts [OF un2 up2 own, of now] w' w2
  have cs: "categories w' = categories w @ ?new"
    by simp
  from fk fresh have none: "filter (\<lambda>c. cat_userId c = usr_id u) (categories w) = []"
    by (auto simp: categories_user_id_fkey_def filter_empty_conv)
  have all: "filter (\<lambda>c. cat_userId c = usr_id u) ?new = ?new"
    using seeded_rows_owner [of now "idSupply w2" "usr_id u"] by (simp add: filter_id_conv)
  from cs none all have of: "categories_of (usr_id u) w' = ?new"
    by (simp add: categories_of_def)
  note cat = seeded_rows_catalog [of now "idSupply w2" "usr_id u"]
  have names: "map cat_name ?new = map dc_name defaultCategories"
    using arg_cong [OF cat, of "map fst"] by (simp add: o_def)
  have types: "map cat_type ?new = map dc_type defaultCategories"
    using arg_cong [OF cat, of "map snd"] by (simp add: o_def)
  have cnt: "\<And>t. length (filter (\<lambda>c. cat_type c = t) ?new) =
                 length (filter (\<lambda>x. x = t) (map cat_type ?new))"
    by (simp add: filter_map o_def)
  have len: "length ?new = 15"
    using arg_cong [OF names, of length] by (simp add: length_defaultCategories)
  show ?thesis
    unfolding of
    apply (intro conjI)
          apply (rule cs)
         apply (rule cat)
        apply (rule len)
       apply (simp only: cnt types catalog_counts)
      apply (simp only: cnt types catalog_counts)
     apply (simp only: cnt types catalog_counts)
    apply (simp only: names catalog_counts)
    done
qed

text \<open>The first login against the empty store, which stays up.\<close>

theorem first_login_seeds_catalog_witness:
  "categories_user_id_fkey empty_store \<and> supply_unused empty_store \<and>
   find (\<lambda>v. usr_auth0Id v = ''auth0|lovelace'') (users empty_store) = None \<and>
   faults empty_store = [] \<and>
   syncUser 5 ''auth0|lovelace'' lovelace_payload empty_store = (Inr lovelace, lovelace_store) \<and>
   categories lovelace_store = categories empty_store @ categories_of (usr_id lovelace) lovelace_store \<and>
   map (\<lambda>c. (cat_name c, cat_type c)) (categories_of (usr_id lovelace) lovelace_store) =
     map (\<lambda>d. (dc_name d, dc_type d)) defaultCategories \<and>
   length (categories_of (usr_id lovelace) lovelace_store) = 15 \<and>
   distinct (map cat_name (categories_of (usr_id lovelace) lovelace_store))"
proof -
  have fk: "categories_user_id_fkey empty_store"
    and unused: "supply_unused empty_store"
    and absent: "find (\<lambda>v. usr_auth0Id v = ''auth0|lovelace'') (users empty_store) = None"
    and none: "faults empty_store = []"
    by (simp_all add: categories_user_id_fkey_def supply_unused_def empty_store_def)
  from none have up: "\<forall>f \<in> set (take 3 (faults empty_store)). f = None"
    by simp
  from first_login_seeds_catalog [OF fk unused absent up lovelace_first_login]
    fk unused absent none lovelace_first_login
  show ?thesis
    by simp
qed

text \<open>
  C2 as stated has seventeen categories, twelve of them of type expense. The first login
  against the empty store leaves the new user with fifteen, ten of them of type expense.
\<close>

theorem first_login_seeds_fifteen:
  "syncUser 5 ''auth0|lovelace'' lovelace_payload empty_store = (Inr lovelace, lovelace_store) \<and>
   length (categories_of (usr_id lovelace) lovelace_store) = 15 \<and>
   length (categories_of (usr_id lovelace) lovelace_store) \<noteq> 17 \<and>
   length (filter (\<lambda>c. cat_type c = EXPENSE) (categories_of (usr_id lovelace) lovelace_store)) = 10 \<and>
   length (filter (\<lambda>c. cat_type c = EXPENSE) (categories_of (usr_id lovelace) lovelace_store)) \<noteq> 12"
  by (simp add: lovelace_first_login lovelace_categories seeded_rows_counts)

section \<open>Seeding the default categories again\<close>

text \<open>
  C4, as the code has it. Seeding the default categories raises no error, whatever the
  store holds and whether or not its database call fails. A login of a user who exists
  seeds nothing: the categories are as before. The seeding runs only within the first
  login, for the user that login has just created, who owns no category then. So in a
  store that satisfies the primary key of \<^verbatim>\<open>users\<close> and the foreign key of
  \<^verbatim>\<open>categories\<close>, and where no two categories agree on user, name and parent, every
  sequence of logins keeps all three; and after every sequence of logins on the empty
  database, under every schedule of database failures, no user owns two top-level
  categories with the same name.
\<close>

theorem seeding_without_duplicates:
  "fst (createDefaultCategories now i w) = Inr () \<and>
   (users_pkey w \<and> find (\<lambda>v. usr_auth0Id v = a) (users w) \<noteq> None \<longrightarrow>
      categories (snd (syncUser now a p w)) = categories w) \<and>
   (users_pkey w \<and> categories_user_id_fkey w \<and> distinct (map cat_key (categories w)) \<longrightarrow>
      users_pkey (logins ls w) \<and> categories_user_id_fkey (logins ls w) \<and>
      distinct (map cat_key (categories (logins ls w)))) \<and>
   length (filter (\<lambda>c. cat_userId c = k \<and> cat_name c = n \<and> cat_parentId c = None)
             (categories (logins ls (empty_store\<lparr>faults := fs\<rparr>)))) \<le> 1"
proof -
  have 1: "fst (createDefaultCategories now i w) = Inr ()"
    using createDefaultCategories_returns [of now i w] by auto
  have 2: "users_pkey w \<and> find (\<lambda>v. usr_auth0Id v = a) (users w) \<noteq> None \<longrightarrow>
      categories (snd (syncUser now a p w)) = categories w"
  proof
    assume h: "users_pkey w \<and> find (\<lambda>v. usr_auth0Id v = a) (users w) \<noteq> None"
    then obtain old where found: "find (\<lambda>v. usr_auth0Id v = a) (users w) = Some old"
      by auto
    have s: "syncUser now a p w = (fst (syncUser now a p w), snd (syncUser now a p w))"
      by simp
    from h have pk: "users_pkey w" by simp
    from syncUser_present [OF pk found s]
    show "categories (snd (syncUser now a p w)) = categories w"
      by blast
  qed
  have 3: "users_pkey w \<and> categories_user_id_fkey w \<and> distinct (map cat_key (categories w)) \<longrightarrow>
      users_pkey (logins ls w) \<and> categories_user_id_fkey (logins ls w) \<and>
      distinct (map cat_key (categories (logins ls w)))"
    using logins_integrity [of w ls] by blast
  let ?e = "empty_store\<lparr>faults := fs\<rparr>"
  have "users_pkey ?e" "categories_user_id_fkey ?e" "distinct (map cat_key (categories ?e))"
    by (simp_all add: users_pkey_def categories_user_id_fkey_def empty_store_def)
  from logins_integrity [OF this, of ls]
  have "distinct (map cat_key (categories (logins ls ?e)))"
    by simp
  then have 4: "length (filter (\<lambda>c. cat_userId c = k \<and> cat_name c = n \<and> cat_parentId c = None)
             (categories (logins ls ?e))) \<le> 1"
    by (rule top_level_once)
  show ?thesis
    by (rule conjI [OF 1 conjI [OF 2 conjI [OF 3 4]]])
qed

text \<open>
  The first login of the new user at time 5 and a second login at time 9, on the empty
  database with no failure: the second login has left the fifteen categories of the first
  as they were, and the user owns one top-level category named Salary.
\<close>

theorem seeding_without_duplicates_witness:
  "users_pkey lovelace_store \<and>
   find (\<lambda>v. usr_auth0Id v = ''auth0|lovelace'') (users lovelace_store) = Some lovelace \<and>
   categories_user_id_fkey lovelace_store \<and>
   distinct (map cat_key (categories lovelace_store)) \<and>
   fst (createDefaultCategories 5 0 (empty_store\<lparr>users := [lovelace], idSupply := 1\<rparr>)) = Inr () \<and>
   categories (snd (syncUser 9 ''auth0|lovelace'' lovelace_payload lovelace_store)) =
     categories lovelace_store \<and>
   distinct (map cat_key
     (categories (logins [(9, ''auth0|lovelace'', lovelace_payload)] lovelace_store))) \<and>
   logins [(5, ''auth0|lovelace'', lovelace_payload), (9, ''auth0|lovelace'', lovelace_payload)]
     (empty_store\<lparr>faults := []\<rparr>) =
     lovelace_store\<lparr>users := [lovelace\<lparr>usr_updatedAt := 9\<rparr>]\<rparr> \<and>
   length (filter (\<lambda>c. cat_userId c = 0 \<and> cat_name c = ''Salary'' \<and> cat_parentId c = None)
             (categories (logins [(5, ''auth0|lovelace'', lovelace_payload),
                                  (9, ''auth0|lovelace'', lovelace_payload)]
                            (empty_store\<lparr>faults := []\<rparr>)))) = 1"
proof -
  have pk: "users_pkey lovelace_store"
    by (simp add: users_pkey_def lovelace_store_def)
  have found: "find (\<lambda>v. usr_auth0Id v = ''auth0|lovelace'') (users lovelace_store) = Some lovelace"
    by (simp add: lovelace_store_def lovelace_def)
  have fk: "categories_user_id_fkey lovelace_store"
    using seeded_rows_owner [of 5 1 0]
    by (simp add: categories_user_id_fkey_def lovelace_store_def lovelace_def)
  have e: "empty_store\<lparr>faults := []\<rparr> = empty_store"
    by (simp add: empty_store_def)
  have "users_pkey empty_store" "categories_user_id_fkey empty_store"
    "distinct (map cat_key (categories empty_store))"
    by (simp_all add: users_pkey_def categories_user_id_fkey_def empty_store_def)
  from logins_integrity [OF this, of "[(5, ''auth0|lovelace'', lovelace_payload)]"]
  have keys: "distinct (map cat_key (categories lovelace_store))"
    by (simp add: lovelace_first_login)
  have salary: "length (filter (\<lambda>d. dc_name d = ''Salary'') defaultCategories) = 1"
    by (simp add: defaultCategories_def)
  have one: "length (filter (\<lambda>c. cat_userId c = 0 \<and> cat_name c = ''Salary'' \<and> cat_parentId c = None)
             (categories (logins [(5, ''auth0|lovelace'', lovelace_payload),
                                  (9, ''auth0|lovelace'', lovelace_payload)]
                            (empty_store\<lparr>faults := []\<rparr>)))) = 1"
    unfolding lovelace_logins by (simp add: lovelace_store_def seeded_rows_named salary)
  note t1 = seeding_without_duplicates [where now = 5 and i = 0
      and w = "empty_store\<lparr>users := [lovelace], idSupply := 1\<rparr>"
      and a = "''auth0|lovelace''" and p = lovelace_payload and ls = "[]" and k = 0
      and n = "''Salary''" and fs = "[]"]
  note t2 = seeding_without_duplicates [where now = 9 and i = 0 and w = lovelace_store
      and a = "''auth0|lovelace''" and p = lovelace_payload
      and ls = "[(9, ''auth0|lovelace'', lovelace_payload)]" and k = 0
      and n = "''Salary''" and fs = "[]"]
  from t1 have a: "fst (createDefaultCategories 5 0
      (empty_store\<lparr>users := [lovelace], idSupply := 1\<rparr>)) = Inr ()"
    by (rule conjunct1)
  from found have "find (\<lambda>v. usr_auth0Id v = ''auth0|lovelace'') (users lovelace_store) \<noteq> None"
    by simp
  with t2 [THEN conjunct2, THEN conjunct1] pk
  have b: "categories (snd (syncUser 9 ''auth0|lovelace'' lovelace_payload
      lovelace_store)) = categories lovelace_store"
    by blast
  from t2 [THEN conjunct2, THEN conjunct2, THEN conjunct1] pk fk keys
  have c: "distinct (map cat_key
     (categories (logins [(9, ''auth0|lovelace'', lovelace_payload)] lovelace_store)))"
    by blast
  from pk found fk keys a b c lovelace_logins one show ?thesis
    by (intro conjI)
qed

text \<open>
  C4 as stated has a second run of the seeding, for a user who already owns a category
  named like a default, skip that default and create no duplicate. The user of the first
  login above owns a top-level category named Salary. Calling the seeding for that user
  again raises no error, but skips nothing: all
  fifteen rows are inserted again, and the user then owns two top-level categories named
  Salary, thirty categories in all. The index \<^verbatim>\<open>categories_user_id_name_parent_id_key\<close>
  that \<^verbatim>\<open>skipDuplicates\<close> relies on never collides on rows without a parent.
\<close>

theorem reseeding_duplicates_salary:
  "createDefaultCategories 9 0 lovelace_store =
     (Inr (), lovelace_store\<lparr>categories := seeded_rows 5 1 0 @ seeded_rows 9 16 0,
                              idSupply := 31,
                              logs := logs lovelace_store @ [CreatedDefaultCategories 0]\<rparr>) \<and>
   length (filter (\<lambda>c. cat_userId c = 0 \<and> cat_name c = ''Salary'' \<and> cat_parentId c = None)
             (categories lovelace_store)) = 1 \<and>
   length (filter (\<lambda>c. cat_userId c = 0 \<and> cat_name c = ''Salary'' \<and> cat_parentId c = None)
             (seeded_rows 5 1 0 @ seeded_rows 9 16 0)) = 2 \<and>
   length (seeded_rows 5 1 0 @ seeded_rows 9 16 0) = 30"
proof -
  have unused: "supply_unused lovelace_store"
    by (auto simp: supply_unused_def lovelace_store_def seeded_rows_def category_row_def
        length_defaultCategories dest!: set_zip_leftD)
  have up: "faults lovelace_store = [] \<or> (\<exists>fs. faults lovelace_store = None # fs)"
    by (simp add: lovelace_store_def)
  have owner: "\<exists>u \<in> set (users lovelace_store). usr_id u = 0"
    by (simp add: lovelace_store_def lovelace_def)
  have salary: "length (filter (\<lambda>d. dc_name d = ''Salary'') defaultCategories) = 1"
    by (simp add: defaultCategories_def)
  from createDefaultCategories_inserts [OF unused up owner, of 9]
  have "createDefaultCategories 9 0 lovelace_store =
     (Inr (), lovelace_store\<lparr>categories := seeded_rows 5 1 0 @ seeded_rows 9 16 0,
                              idSupply := 31,
                              logs := logs lovelace_store @ [CreatedDefaultCategories 0]\<rparr>)"
    by (simp add: lovelace_store_def length_defaultCategories)
  then show ?thesis
    by (simp add: seeded_rows_named salary seeded_rows_counts lovelace_store_def)
qed

section \<open>Persistence errors during the synchronization\<close>

text \<open>
  C8, as the code has it. An error of the lookup, of the creation or of the update is
  logged and thrown on to the caller: \<^verbatim>\<open>syncUser\<close> ends with that error, having made
  no further store call (one call for a failed lookup, two otherwise) and with the tables
  as they were. An error of the bulk insert of the default categories is caught inside
  \<^verbatim>\<open>createDefaultCategories\<close>, which logs it and returns: \<^verbatim>\<open>syncUser\<close> then
  returns the user it created, after three store calls, with no category inserted.
\<close>

theorem syncUser_error_propagation:
  "(\<forall>e w1. user_findUnique a w = (Inl e, w1) \<longrightarrow>
      syncUser now a p w = (Inl e, w1\<lparr>logs := logs w1 @ [FailedSyncUser a e]\<rparr>) \<and>
      users w1 = users w \<and> categories w1 = categories w \<and> faults w1 = tl (faults w)) \<and>
   (\<forall>w1 e w2.
      user_findUnique a w = (Inr None, w1) \<and>
      user_create now
        \<lparr>uc_auth0Id = a,
         uc_email = js_or_str (claim_email p) (a @ ''@wisecalk.com''),
         uc_firstName = js_or (claim_given_name p) (name_first (claim_name p)),
         uc_lastName = js_or (claim_family_name p) (name_rest (claim_name p)),
         uc_timezone = js_or_str (claim_zoneinfo p) ''UTC'',
         uc_locale = js_or_str (claim_locale p) ''en-US''\<rparr> w1 = (Inl e, w2) \<longrightarrow>
      syncUser now a p w = (Inl e, w2\<lparr>logs := logs w2 @ [FailedSyncUser a e]\<rparr>) \<and>
      users w2 = users w \<and> categories w2 = categories w \<and> faults w2 = tl (tl (faults w))) \<and>
   (\<forall>old w1 e w2.
      user_findUnique a w = (Inr (Some old), w1) \<and>
      user_update now (usr_id old)
        \<lparr>uu_email = js_or_str (claim_email p) (usr_email old),
         uu_firstName = js_or (claim_given_name p) (usr_firstName old),
         uu_lastName = js_or (claim_family_name p) (usr_lastName old),
         uu_timezone = js_or_str (claim_zoneinfo p) (usr_timezone old),
         uu_locale = js_or_str (claim_locale p) (usr_locale old)\<rparr> w1 = (Inl e, w2) \<longrightarrow>
      syncUser now a p w = (Inl e, w2\<lparr>logs := logs w2 @ [FailedSyncUser a e]\<rparr>) \<and>
      users w2 = users w \<and> categories w2 = categories w \<and> faults w2 = tl (tl (faults w))) \<and>
   (\<forall>w1 u w2 e w3.
      user_findUnique a w = (Inr None, w1) \<and>
      user_create now
        \<lparr>uc_auth0Id = a,
         uc_email = js_or_str (claim_email p) (a @ ''@wisecalk.com''),
         uc_firstName = js_or (claim_given_name p) (name_first (claim_name p)),
         uc_lastName = js_or (claim_family_name p) (name_rest (claim_name p)),
         uc_timezone = js_or_str (claim_zoneinfo p) ''UTC'',
         uc_locale = js_or_str (claim_locale p) ''en-US''\<rparr> w1 = (Inr u, w2) \<and>
      category_createMany_skipDuplicates now (map (default_input (usr_id u)) defaultCategories)
        (w2\<lparr>logs := logs w2 @ [CreatedNewUser (usr_email u)]\<rparr>) = (Inl e, w3) \<longrightarrow>
      syncUser now a p w =
        (Inr u, w3\<lparr>logs := logs w3 @ [FailedDefaultCategories (usr_id u) e]\<rparr>) \<and>
      users w3 = users w @ [u] \<and> categories w3 = categories w \<and>
      faults w3 = tl (tl (tl (faults w))))"
proof -
  have lookup: "\<forall>e w1. user_findUnique a w = (Inl e, w1) \<longrightarrow>
      syncUser now a p w = (Inl e, w1\<lparr>logs := logs w1 @ [FailedSyncUser a e]\<rparr>) \<and>
      users w1 = users w \<and> categories w1 = categories w \<and> faults w1 = tl (faults w)"
  proof (intro allI impI)
  fix e w1
  assume f: "user_findUnique a w = (Inl e, w1)"
  from syncUser_lookup_fails [OF f] user_findUnique_result [OF f] user_findUnique_faults [OF f]
  show "syncUser now a p w = (Inl e, w1\<lparr>logs := logs w1 @ [FailedSyncUser a e]\<rparr>) \<and>
      users w1 = users w \<and> categories w1 = categories w \<and> faults w1 = tl (faults w)"
    by simp
  qed
  have create: "\<forall>w1 e w2.
      user_findUnique a w = (Inr None, w1) \<and>
      user_create now
        \<lparr>uc_auth0Id = a,
         uc_email = js_or_str (claim_email p) (a @ ''@wisecalk.com''),
         uc_firstName = js_or (claim_given_name p) (name_first (claim_name p)),
         uc_lastName = js_or (claim_family_name p) (name_rest (claim_name p)),
         uc_timezone = js_or_str (claim_zoneinfo p) ''UTC'',
         uc_locale = js_or_str (claim_locale p) ''en-US''\<rparr> w1 = (Inl e, w2) \<longrightarrow>
      syncUser now a p w = (Inl e, w2\<lparr>logs := logs w2 @ [FailedSyncUser a e]\<rparr>) \<and>
      users w2 = users w \<and> categories w2 = categories w \<and> faults w2 = tl (tl (faults w))"
  proof (intro allI impI)
  fix w1 e w2
  let ?d = "\<lparr>uc_auth0Id = a,
         uc_email = js_or_str (claim_email p) (a @ ''@wisecalk.com''),
         uc_firstName = js_or (claim_given_name p) (name_first (claim_name p)),
         uc_lastName = js_or (claim_family_name p) (name_rest (claim_name p)),
         uc_timezone = js_or_str (claim_zoneinfo p) ''UTC'',
         uc_locale = js_or_str (claim_locale p) ''en-US''\<rparr>"
  assume "user_findUnique a w = (Inr None, w1) \<and> user_create now ?d w1 = (Inl e, w2)"
  then have f: "user_findUnique a w = (Inr None, w1)" and c: "user_create now ?d w1 = (Inl e, w2)"
    by simp_all
  from syncUser_create_branch [OF f, of now p] c user_findUnique_result [OF f]
    user_findUnique_faults [OF f] user_create_fails [OF c] user_create_faults [OF c]
  show "syncUser now a p w = (Inl e, w2\<lparr>logs := logs w2 @ [FailedSyncUser a e]\<rparr>) \<and>
      users w2 = users w \<and> categories w2 = categories w \<and> faults w2 = tl (tl (faults w))"
    by simp
  qed
  have update: "\<forall>old w1 e w2.
      user_findUnique a w = (Inr (Some old), w1) \<and>
      user_update now (usr_id old)
        \<lparr>uu_email = js_or_str (claim_email p) (usr_email old),
         uu_firstName = js_or (claim_given_name p) (usr_firstName old),
         uu_lastName = js_or (claim_family_name p) (usr_lastName old),
         uu_timezone = js_or_str (claim_zoneinfo p) (usr_timezone old),
         uu_locale = js_or_str (claim_locale p) (usr_locale old)\<rparr> w1 = (Inl e, w2) \<longrightarrow>
      syncUser now a p w = (Inl e, w2\<lparr>logs := logs w2 @ [FailedSyncUser a e]\<rparr>) \<and>
      users w2 = users w \<and> categories w2 = categories w \<and> faults w2 = tl (tl (faults w))"
  proof (intro allI impI)
  fix old :: user and w1 e w2
  let ?d = "\<lparr>uu_email = js_or_str (claim_email p) (usr_email old),
         uu_firstName = js_or (claim_given_name p) (usr_firstName old),
         uu_lastName = js_or (claim_family_name p) (usr_lastName old),
         uu_timezone = js_or_str (claim_zoneinfo p) (usr_timezone old),
         uu_locale = js_or_str (claim_locale p) (usr_locale old)\<rparr>"
  assume "user_findUnique a w = (Inr (Some old), w1) \<and>
          user_update now (usr_id old) ?d w1 = (Inl e, w2)"
  then have f: "user_findUnique a w = (Inr (Some old), w1)"
    and u: "user_update now (usr_id old) ?d w1 = (Inl e, w2)"
    by simp_all
  from syncUser_update_branch [OF f, of now p] u user_findUnique_result [OF f]
    user_findUnique_faults [OF f] user_update_fails [OF u] user_update_faults [OF u]
  show "syncUser now a p w = (Inl e, w2\<lparr>logs := logs w2 @ [FailedSyncUser a e]\<rparr>) \<and>
      users w2 = users w \<and> categories w2 = categories w \<and> faults w2 = tl (tl (faults w))"
    by simp
  qed
  have seeding: "\<forall>w1 u w2 e w3.
      user_findUnique a w = (Inr None, w1) \<and>
      user_create now
        \<lparr>uc_auth0Id = a,
         uc_email = js_or_str (claim_email p) (a @ ''@wisecalk.com''),
         uc_firstName = js_or (claim_given_name p) (name_first (claim_name p)),
         uc_lastName = js_or (claim_family_name p) (name_rest (claim_name p)),
         uc_timezone = js_or_str (claim_zoneinfo p) ''UTC'',
         uc_locale = js_or_str (claim_locale p) ''en-US''\<rparr> w1 = (Inr u, w2) \<and>
      category_createMany_skipDuplicates now (map (default_input (usr_id u)) defaultCategories)
        (w2\<lparr>logs := logs w2 @ [CreatedNewUser (usr_email u)]\<rparr>) = (Inl e, w3) \<longrightarrow>
      syncUser now a p w =
        (Inr u, w3\<lparr>logs := logs w3 @ [FailedDefaultCategories (usr_id u) e]\<rparr>) \<and>
      users w3 = users w @ [u] \<and> categories w3 = categories w \<and>
      faults w3 = tl (tl (tl (faults w)))"
  proof (intro allI impI)
  fix w1 and u :: user and w2 :: world and e w3
  let ?d = "\<lparr>uc_auth0Id = a,
         uc_email = js_or_str (claim_email p) (a @ ''@wisecalk.com''),
         uc_firstName = js_or (claim_given_name p) (name_first (claim_name p)),
         uc_lastName = js_or (claim_family_name p) (name_rest (claim_name p)),
         uc_timezone = js_or_str (claim_zoneinfo p) ''UTC'',
         uc_locale = js_or_str (claim_locale p) ''en-US''\<rparr>"
  let ?w2 = "w2\<lparr>logs := logs w2 @ [CreatedNewUser (usr_email u)]\<rparr>"
  assume "user_findUnique a w = (Inr None, w1) \<and> user_create now ?d w1 = (Inr u, w2) \<and>
      category_createMany_skipDuplicates now (map (default_input (usr_id u)) defaultCategories)
        ?w2 = (Inl e, w3)"
  then have f: "user_findUnique a w = (Inr None, w1)" and c: "user_create now ?d w1 = (Inr u, w2)"
    and m: "category_createMany_skipDuplicates now
              (map (default_input (usr_id u)) defaultCategories) ?w2 = (Inl e, w3)"
    by simp_all
  note co = user_create_ok [OF c]
  from co have us: "users w2 = users w1 @ [u]" and cs: "categories w2 = categories w1"
    by simp_all
  from syncUser_create_branch [OF f, of now p] c createDefaultCategories_swallows [OF m]
  have "syncUser now a p w =
        (Inr u, w3\<lparr>logs := logs w3 @ [FailedDefaultCategories (usr_id u) e]\<rparr>)"
    by simp
  moreover from createMany_tables [OF m] us cs user_findUnique_result [OF f]
    user_findUnique_faults [OF f] user_create_faults [OF c]
  have "users w3 = users w @ [u]" "categories w3 = categories w"
    "faults w3 = tl (tl (tl (faults w)))"
    by simp_all
  ultimately show "syncUser now a p w =
        (Inr u, w3\<lparr>logs := logs w3 @ [FailedDefaultCategories (usr_id u) e]\<rparr>) \<and>
      users w3 = users w @ [u] \<and> categories w3 = categories w \<and>
      faults w3 = tl (tl (tl (faults w)))"
    by simp
  qed
  show ?thesis
    by (rule conjI [OF lookup conjI [OF create conjI [OF update seeding]]])
qed

text \<open>
  The store refuses the connection at the lookup; and a first login whose email claim is
  the email of another user fails on \<^verbatim>\<open>users_email_key\<close>. Both errors reach the
  caller.
\<close>

theorem syncUser_error_propagation_witness:
  "syncUser 5 ''auth0|lovelace'' lovelace_payload
     (empty_store\<lparr>faults := [Some ''connection refused'']\<rparr>) =
   (Inl (StoreFailure ''connection refused''),
    empty_store\<lparr>logs := [FailedSyncUser ''auth0|lovelace'' (StoreFailure ''connection refused'')]\<rparr>) \<and>
   syncUser 5 ''auth0|byron'' ((bare_payload ''auth0|byron'')\<lparr>claim_email := Some ''ada@example.com''\<rparr>)
     ada_store =
   (Inl (UniqueConstraintFailed ''users_email_key''),
    ada_store\<lparr>idSupply := 2,
                logs := [FailedSyncUser ''auth0|byron'' (UniqueConstraintFailed ''users_email_key'')]\<rparr>)"
proof -
  let ?w = "empty_store\<lparr>faults := [Some ''connection refused'']\<rparr>"
  have f: "user_findUnique ''auth0|lovelace'' ?w = (Inl (StoreFailure ''connection refused''), empty_store)"
    by (simp add: user_findUnique_def bind_def store_call_def empty_store_def pg_text_def)
  let ?p = "(bare_payload ''auth0|byron'')\<lparr>claim_email := Some ''ada@example.com''\<rparr>"
  have g: "user_findUnique ''auth0|byron'' ada_store = (Inr None, ada_store)"
    by (simp add: user_findUnique_def bind_def store_call_def ada_store_def empty_store_def ada_def
        pg_text_def)
  have c: "user_create 5
        \<lparr>uc_auth0Id = ''auth0|byron'',
         uc_email = js_or_str (claim_email ?p) (''auth0|byron'' @ ''@wisecalk.com''),
         uc_firstName = js_or (claim_given_name ?p) (name_first (claim_name ?p)),
         uc_lastName = js_or (claim_family_name ?p) (name_rest (claim_name ?p)),
         uc_timezone = js_or_str (claim_zoneinfo ?p) ''UTC'',
         uc_locale = js_or_str (claim_locale ?p) ''en-US''\<rparr> ada_store =
        (Inl (UniqueConstraintFailed ''users_email_key''), ada_store\<lparr>idSupply := 2\<rparr>)"
    by (simp add: user_create_def bind_def store_call_def fresh_id_def Let_def ada_store_def
        empty_store_def ada_def bare_payload_def js_or_str_def js_or_def name_first_eq
        name_rest_eq pg_text_def pg_text_opt_def)
  from syncUser_error_propagation [of "''auth0|lovelace''" ?w 5 lovelace_payload] f
  have 1: "syncUser 5 ''auth0|lovelace'' lovelace_payload ?w =
    (Inl (StoreFailure ''connection refused''),
     empty_store\<lparr>logs := [FailedSyncUser ''auth0|lovelace'' (StoreFailure ''connection refused'')]\<rparr>)"
    by (simp add: empty_store_def)
  from syncUser_error_propagation [of "''auth0|byron''" ada_store 5 ?p] g c
  have 2: "syncUser 5 ''auth0|byron'' ?p ada_store =
    (Inl (UniqueConstraintFailed ''users_email_key''),
     ada_store\<lparr>idSupply := 2,
                logs := [FailedSyncUser ''auth0|byron'' (UniqueConstraintFailed ''users_email_key'')]\<rparr>)"
    by (simp add: ada_store_def empty_store_def)
  from 1 2 show ?thesis by simp
qed

text \<open>
  C8 as stated includes the seeding step. The store answers the lookup and the creation and
  loses the connection at the bulk insert: \<^verbatim>\<open>syncUser\<close> returns the new user, and
  the error is in the log only.
\<close>

theorem seeding_failure_is_swallowed:
  "syncUser 5 ''auth0|lovelace'' lovelace_payload
     (empty_store\<lparr>faults := [None, None, Some ''connection lost'']\<rparr>) =
   (Inr lovelace,
    empty_store\<lparr>users := [lovelace], idSupply := 1,
                 logs := [CreatedNewUser ''auth0|lovelace@wisecalk.com'',
                          FailedDefaultCategories 0 (StoreFailure ''connection lost'')]\<rparr>)"
  by (simp add: syncUser_def catch_def bind_def ret_def logger_def user_findUnique_def
      user_create_def fresh_id_def Let_def store_call_def createDefaultCategories_def
      category_createMany_skipDuplicates_def empty_store_def lovelace_payload_def
      bare_payload_def js_or_str_def js_or_def name_first_eq name_rest_eq lovelace_def
      pg_text_def pg_text_opt_def)

section \<open>The exchange-rate table\<close>




section \<open>The transfer pairing\<close>

text \<open>
  C6. In every state of the transactions table that statements can reach from the empty
  table under the constraints of the migration, the non-null \<^verbatim>\<open>transfer_to_id\<close>s are
  pairwise different: two rows that claim the same paired target are one row. Deleting a
  transaction always succeeds, removes exactly the rows with that id, and does not cascade:
  a row that referenced the deleted one is kept with its reference set to null, every other
  remaining row is unchanged, and no reference to the deleted id is left.
\<close>

theorem transfer_pairing_one_to_one:
  "distinct (transfer_targets (run ss [])) \<and>
   (\<forall>r1 \<in> set (run ss []). \<forall>r2 \<in> set (run ss []).
      txn_transferToId r1 \<noteq> None \<and> txn_transferToId r1 = txn_transferToId r2 \<longrightarrow> r1 = r2) \<and>
   (\<exists>rows'. exec (Delete i) rows = Inr rows' \<and>
      map txn_id rows' = filter (\<lambda>k. k \<noteq> i) (map txn_id rows) \<and>
      (\<forall>r \<in> set rows. txn_id r \<noteq> i \<and> txn_transferToId r = Some i \<longrightarrow>
         r\<lparr>txn_transferToId := None\<rparr> \<in> set rows') \<and>
      (\<forall>r \<in> set rows. txn_id r \<noteq> i \<and> txn_transferToId r \<noteq> Some i \<longrightarrow> r \<in> set rows') \<and>
      (\<forall>x \<in> set rows'. txn_transferToId x \<noteq> Some i))"
proof -
  from run_invariant [OF empty_invariant, of ss]
  have pk: "transactions_pkey (run ss [])" and key: "transfer_to_id_key (run ss [])"
    by simp_all
  have 1: "distinct (transfer_targets (run ss []))"
    using pk key by (rule targets_distinct)
  have 2: "\<forall>r1 \<in> set (run ss []). \<forall>r2 \<in> set (run ss []).
      txn_transferToId r1 \<noteq> None \<and> txn_transferToId r1 = txn_transferToId r2 \<longrightarrow> r1 = r2"
  proof (intro ballI impI)
    fix r1 r2
    assume m: "r1 \<in> set (run ss [])" "r2 \<in> set (run ss [])"
      and eq: "txn_transferToId r1 \<noteq> None \<and> txn_transferToId r1 = txn_transferToId r2"
    with key have "txn_id r1 = txn_id r2"
      unfolding transfer_to_id_key_def by blast
    with pk m show "r1 = r2" by (rule same_id_same_row)
  qed
  obtain rows' where d: "exec (Delete i) rows = Inr rows'" by simp
  from exec_Delete_rows [OF d] d
  have 3: "\<exists>rows'. exec (Delete i) rows = Inr rows' \<and>
      map txn_id rows' = filter (\<lambda>k. k \<noteq> i) (map txn_id rows) \<and>
      (\<forall>r \<in> set rows. txn_id r \<noteq> i \<and> txn_transferToId r = Some i \<longrightarrow>
         r\<lparr>txn_transferToId := None\<rparr> \<in> set rows') \<and>
      (\<forall>r \<in> set rows. txn_id r \<noteq> i \<and> txn_transferToId r \<noteq> Some i \<longrightarrow> r \<in> set rows') \<and>
      (\<forall>x \<in> set rows'. txn_transferToId x \<noteq> Some i)"
    by blast
  show ?thesis
    by (rule conjI [OF 1 conjI [OF 2 3]])
qed

text \<open>
  Two transfers that both claim transaction 1 as their pair: the second insert fails on
  \<^verbatim>\<open>transactions_transfer_to_id_key\<close>. Deleting transaction 1 then leaves transaction
  2 in the table, its reference null.
\<close>

theorem transfer_pairing_one_to_one_witness:
  "run [Insert (transfer_row 1 None), Insert (transfer_row 2 (Some 1)),
        Insert (transfer_row 3 (Some 1))] [] =
     [transfer_row 1 None, transfer_row 2 (Some 1)] \<and>
   transfer_targets [transfer_row 1 None, transfer_row 2 (Some 1)] = [1] \<and>
   exec (Delete 1) [transfer_row 1 None, transfer_row 2 (Some 1)] = Inr [transfer_row 2 None]"
proof -
  have r: "run [Insert (transfer_row 1 None), Insert (transfer_row 2 (Some 1)),
        Insert (transfer_row 3 (Some 1))] [] =
     [transfer_row 1 None, transfer_row 2 (Some 1)]"
    by (simp add: transfer_row_def id_exists_def transfer_taken_def)
  have t: "transfer_targets [transfer_row 1 None, transfer_row 2 (Some 1)] = [1]"
    by (simp add: transfer_targets_def transfer_row_def)
  have d: "exec (Delete 1) [transfer_row 1 None, transfer_row 2 (Some 1)] =
             Inr [transfer_row 2 None]"
    by (simp add: transfer_row_def)
  from transfer_pairing_one_to_one [of "[Insert (transfer_row 1 None),
      Insert (transfer_row 2 (Some 1)), Insert (transfer_row 3 (Some 1))]" 1
      "[transfer_row 1 None, transfer_row 2 (Some 1)]"] r t d
  show ?thesis
    by (elim conjE) (intro conjI; assumption)
qed

end
